theory Spec2Isabelle
  imports Main "HOL-Library.Word" "HOL-Library.Signed_Division" "HOL-Library.Finite_Map"
begin

section \<open>Go values\<close>

text \<open>
  The buffer package (\<^verbatim>\<open>pkg/buffer/buffer.go\<close>) computes with Go's \<^verbatim>\<open>int\<close>, taken here
  at its width on the 64-bit targets: a 64-bit two's complement value whose \<^verbatim>\<open>+\<close> and
  \<^verbatim>\<open>-\<close> wrap around, whose order is the signed one and whose \<^verbatim>\<open>/\<close> truncates towards
  zero. A \<^verbatim>\<open>byte\<close> is an 8-bit word, a \<^verbatim>\<open>[]byte\<close> a list of them.
\<close>

type_synonym go_int = "64 word"
type_synonym byte = "8 word"

text \<open>Go's built-in \<^verbatim>\<open>min\<close> and \<^verbatim>\<open>max\<close> at type \<^verbatim>\<open>int\<close>.\<close>

definition go_min :: "go_int \<Rightarrow> go_int \<Rightarrow> go_int" where
  "go_min a b = (if a \<le>s b then a else b)"

definition go_max :: "go_int \<Rightarrow> go_int \<Rightarrow> go_int" where
  "go_max a b = (if a \<le>s b then b else a)"

text \<open>Go's \<^verbatim>\<open>/\<close> at type \<^verbatim>\<open>int\<close>, for a divisor that is not zero: the quotient truncated
  towards zero.\<close>

definition go_quo :: "go_int \<Rightarrow> go_int \<Rightarrow> go_int" where
  "go_quo a b = word_of_int (sint a sdiv sint b)"

text \<open>\<^verbatim>\<open>len\<close> of a slice, as an \<^verbatim>\<open>int\<close>.\<close>

definition len :: "'a list \<Rightarrow> go_int" where
  "len xs = word_of_nat (length xs)"

text \<open>
  \<^verbatim>\<open>func clamp(val, low, high int) int { return max(low, min(val, high-1)) }\<close>
  The source documents it as limiting \<^verbatim>\<open>val\<close> to the half-open \<^verbatim>\<open>[low, high)\<close>.
\<close>

definition clamp :: "go_int \<Rightarrow> go_int \<Rightarrow> go_int \<Rightarrow> go_int" where
  "clamp val low high = go_max low (go_min val (high - 1))"

text \<open>A run-time panic of the Go program.\<close>

datatype panic =
    NilDereference
  | IndexOutOfRange nat nat
  | SliceBoundsOutOfRange
  | LogPanic string

section \<open>The buffer\<close>

text \<open>\<^verbatim>\<open>LineInfo\<close>; the field \<^verbatim>\<open>end\<close> is named \<open>endpos\<close> here.\<close>

record LineInfo =
  start :: go_int
  endpos :: go_int
  indentation :: go_int

text \<open>The zero value of \<^verbatim>\<open>LineInfo\<close>, which reading a missing key of a Go map yields.\<close>

definition zeroLineInfo :: LineInfo where
  "zeroLineInfo = \<lparr>start = 0, endpos = 0, indentation = 0\<rparr>"

text \<open>A \<^verbatim>\<open>*sitter.Node\<close> that is not nil: an opaque handle of the parser library.\<close>

datatype Node = Node nat

text \<open>\<^verbatim>\<open>SourceCode\<close>; \<^verbatim>\<open>tree\<close> is a pointer (nil is \<open>None\<close>), \<^verbatim>\<open>lines\<close> a
  \<^verbatim>\<open>map[int]LineInfo\<close>.\<close>

record SourceCode =
  data :: "byte list"
  colors :: "byte list"
  cursor :: go_int
  tree :: "Node option"
  lines :: "(go_int, LineInfo) fmap"

text \<open>\<^verbatim>\<open>m[k]\<close> on a \<^verbatim>\<open>map[int]LineInfo\<close> and \<^verbatim>\<open>len(m)\<close>.\<close>

definition map_index :: "(go_int, LineInfo) fmap \<Rightarrow> go_int \<Rightarrow> LineInfo" where
  "map_index m k = (case fmlookup m k of None \<Rightarrow> zeroLineInfo | Some li \<Rightarrow> li)"

definition map_len :: "(go_int, LineInfo) fmap \<Rightarrow> go_int" where
  "map_len m = word_of_nat (fcard (fmdom m))"

text \<open>
  \<^verbatim>\<open>func (s *SourceCode) GetColors(start, end int) []byte { return s.colors[start:end] }\<close>,
  with its parameters named \<open>lo\<close> and \<open>hi\<close> here. A slice expression panics unless
  \<open>0 \<le> lo \<le> hi \<le> cap\<close>; the colors come from \<^verbatim>\<open>bytes.Repeat\<close>, whose result has its
  length for capacity. \<^verbatim>\<open>View\<close> calls it with the \<^verbatim>\<open>start\<close> and \<^verbatim>\<open>end\<close> of every row it
  renders.
\<close>

definition GetColors :: "SourceCode \<Rightarrow> go_int \<Rightarrow> go_int \<Rightarrow> panic + byte list" where
  "GetColors s lo hi =
     (if 0 \<le>s lo \<and> lo \<le>s hi \<and> sint hi \<le> int (length (colors s))
      then Inr (take (nat (sint hi) - nat (sint lo)) (drop (nat (sint lo)) (colors s)))
      else Inl SliceBoundsOutOfRange)"

subsection \<open>Cursor movement\<close>

text \<open>\<^verbatim>\<open>cursorDown\<close> and \<^verbatim>\<open>cursorUp\<close> have an empty body.\<close>

definition cursorDown :: "SourceCode \<Rightarrow> go_int \<Rightarrow> SourceCode" where
  "cursorDown source n = source"

definition cursorUp :: "SourceCode \<Rightarrow> go_int \<Rightarrow> SourceCode" where
  "cursorUp source n = source"

definition cursorLeft :: "SourceCode \<Rightarrow> go_int \<Rightarrow> SourceCode" where
  "cursorLeft source n = source\<lparr>cursor := clamp (cursor source - n) 0 (len (data source))\<rparr>"

definition cursorRight :: "SourceCode \<Rightarrow> go_int \<Rightarrow> SourceCode" where
  "cursorRight source n = source\<lparr>cursor := clamp (cursor source + n) 0 (len (data source))\<rparr>"

subsection \<open>Building the line index\<close>

text \<open>
  The local variables of \<^verbatim>\<open>SetSource\<close>; its local map \<^verbatim>\<open>lines\<close> is the field
  \<open>linesAcc\<close>.
\<close>

record scan =
  i :: go_int
  prevLine :: go_int
  currentLine :: go_int
  foundChar :: bool
  lineInfo :: LineInfo
  linesAcc :: "(go_int, LineInfo) fmap"

text \<open>The three statements of the loop body before \<^verbatim>\<open>i++\<close>, in the source's order: the
  reset at the first byte of a row, the indentation count, the commit at a newline.\<close>

definition scan_reset :: "scan \<Rightarrow> scan" where
  "scan_reset st =
     (if prevLine st \<noteq> currentLine st
      then st\<lparr>foundChar := False,
              lineInfo := \<lparr>start = i st, endpos = i st, indentation = 0\<rparr>,
              prevLine := currentLine st\<rparr>
      else st)"

definition scan_indent :: "byte \<Rightarrow> scan \<Rightarrow> scan" where
  "scan_indent b st =
     (if b = 9 \<and> \<not> foundChar st
      then st\<lparr>lineInfo := (lineInfo st)\<lparr>indentation := indentation (lineInfo st) + 4\<rparr>\<rparr>
      else if b = 32 \<and> \<not> foundChar st
      then st\<lparr>lineInfo := (lineInfo st)\<lparr>indentation := indentation (lineInfo st) + 1\<rparr>\<rparr>
      else st\<lparr>foundChar := True\<rparr>)"

definition scan_commit :: "byte \<Rightarrow> scan \<Rightarrow> scan" where
  "scan_commit b st =
     (if b = 10
      then st\<lparr>lineInfo := (lineInfo st)\<lparr>endpos := i st\<rparr>,
              linesAcc := fmupd (currentLine st) ((lineInfo st)\<lparr>endpos := i st\<rparr>) (linesAcc st),
              currentLine := currentLine st + 1\<rparr>
      else st)"

definition scan_byte :: "byte \<Rightarrow> scan \<Rightarrow> scan" where
  "scan_byte b st = (let st' = scan_commit b (scan_indent b (scan_reset st)) in st'\<lparr>i := i st' + 1\<rparr>)"

text \<open>\<^verbatim>\<open>for _, b := range source\<close>.\<close>

fun scan_loop :: "byte list \<Rightarrow> scan \<Rightarrow> scan" where
  "scan_loop [] st = st"
| "scan_loop (b # bs) st = scan_loop bs (scan_byte b st)"

definition scan_init :: scan where
  "scan_init = \<lparr>i = 0, prevLine = - 1, currentLine = 0, foundChar = False,
                lineInfo = \<lparr>start = 0, endpos = 0, indentation = 0\<rparr>, linesAcc = fmempty\<rparr>"

definition SetSource :: "SourceCode \<Rightarrow> byte list \<Rightarrow> SourceCode" where
  "SetSource s src =
     s\<lparr>data := src,
       colors := replicate (length src) 5,
       cursor := 0,
       tree := None,
       lines := linesAcc (scan_loop src scan_init)\<rparr>"

section \<open>The model and its update\<close>

record Viewport =
  offset :: go_int
  width :: go_int
  height :: go_int

text \<open>\<^verbatim>\<open>Model\<close>; \<^verbatim>\<open>fd\<close> and \<^verbatim>\<open>source\<close> are pointers, nil being \<open>None\<close>. The update
  writes through \<^verbatim>\<open>source\<close>; here the model returned holds the buffer written.\<close>

record Model =
  Path :: string
  fd :: "nat option"
  Focused :: bool
  modified :: bool
  ready :: bool
  source :: "SourceCode option"
  viewport :: Viewport

datatype MouseButton =
    MouseButtonNone
  | MouseButtonLeft
  | MouseButtonMiddle
  | MouseButtonRight
  | MouseButtonWheelUp
  | MouseButtonWheelDown
  | MouseButtonWheelLeft
  | MouseButtonWheelRight

text \<open>The messages \<^verbatim>\<open>Update\<close> switches on: a \<^verbatim>\<open>tea.WindowSizeMsg\<close> with its width and
  height, a \<^verbatim>\<open>tea.KeyMsg\<close> with the value of its \<^verbatim>\<open>String()\<close>, a \<^verbatim>\<open>tea.MouseMsg\<close> with its
  button, \<^verbatim>\<open>X\<close> and \<^verbatim>\<open>Y\<close>, a \<^verbatim>\<open>TreeReloadMsg\<close> with its tree and colors, and any other.\<close>

datatype Msg =
    WindowSizeMsg go_int go_int
  | KeyMsg string
  | MouseMsg MouseButton go_int go_int
  | TreeReloadMsg "Node option" "byte list"
  | UpdateViewportMsg go_int
  | LineChangedMsg go_int
  | OtherMsg

text \<open>The commands \<^verbatim>\<open>Update\<close> hands to \<^verbatim>\<open>tea.Batch\<close>, in order.\<close>

datatype Cmd = NilCmd | UpdateViewport | ShowStatus string

definition scroll :: "Model \<Rightarrow> go_int \<Rightarrow> panic + Model" where
  "scroll m target =
     (case source m of
        None \<Rightarrow> Inl NilDereference
      | Some s \<Rightarrow>
          Inr (m\<lparr>viewport := (viewport m)
                 \<lparr>offset := clamp target 0 (map_len (lines s) - height (viewport m) + 2)\<rparr>\<rparr>))"

text \<open>The body of \<^verbatim>\<open>case tea.MouseButtonLeft\<close>, on a buffer that is not nil.\<close>

definition click_pos :: "LineInfo \<Rightarrow> go_int \<Rightarrow> go_int" where
  "click_pos line x =
     (if 0 <s indentation line
      then go_quo (go_min x (indentation line)) 4 + clamp (x - indentation line) 0 (endpos line)
      else x)"

definition click :: "Viewport \<Rightarrow> SourceCode \<Rightarrow> go_int \<Rightarrow> go_int \<Rightarrow> SourceCode" where
  "click vp s msgX msgY =
     (let x = msgX - 6; y = msgY;
          row = offset vp + y;
          line = map_index (lines s) row;
          pos = click_pos line x
      in s\<lparr>cursor := clamp (start line + pos) (start line) (endpos line + 1)\<rparr>)"

text \<open>With a nil \<^verbatim>\<open>source\<close>, a method that reads or writes a field panics; \<^verbatim>\<open>cursorDown\<close>
  and \<^verbatim>\<open>cursorUp\<close> touch none and return.\<close>

definition with_source :: "Model \<Rightarrow> (SourceCode \<Rightarrow> SourceCode) \<Rightarrow> panic + Model" where
  "with_source m f =
     (case source m of None \<Rightarrow> Inl NilDereference | Some s \<Rightarrow> Inr (m\<lparr>source := Some (f s)\<rparr>))"

text \<open>The \<^verbatim>\<open>tea.KeyMsg\<close> case tests the key against six distinct strings in a row of
  \<^verbatim>\<open>if\<close> statements, so at most one body runs.\<close>

definition key :: "Model \<Rightarrow> string \<Rightarrow> panic + Model" where
  "key m k =
     (if k = ''ctrl+u'' then scroll m (offset (viewport m) - go_quo (height (viewport m)) 2)
      else if k = ''ctrl+d'' then scroll m (offset (viewport m) + go_quo (height (viewport m)) 2)
      else if k = ''j'' then Inr (m\<lparr>source := map_option (\<lambda>s. cursorDown s 1) (source m)\<rparr>)
      else if k = ''k'' then Inr (m\<lparr>source := map_option (\<lambda>s. cursorUp s 1) (source m)\<rparr>)
      else if k = ''l'' then with_source m (\<lambda>s. cursorRight s 1)
      else if k = ''h'' then with_source m (\<lambda>s. cursorLeft s 1)
      else Inr m)"

definition with_cmds :: "Cmd list \<Rightarrow> panic + Model \<Rightarrow> panic + Model \<times> Cmd list" where
  "with_cmds cmds r = (case r of Inl p \<Rightarrow> Inl p | Inr m \<Rightarrow> Inr (m, cmds))"

fun Update :: "Model \<Rightarrow> Msg \<Rightarrow> panic + Model \<times> Cmd list" where
  "Update m (WindowSizeMsg w h) =
     (if \<not> ready m
      then Inr (m\<lparr>viewport := \<lparr>offset = 0, width = w, height = h - 2\<rparr>, ready := True\<rparr>, [])
      else Inr (m\<lparr>viewport := (viewport m)\<lparr>height := h - 2, width := w\<rparr>\<rparr>, []))"
| "Update m (KeyMsg k) = with_cmds [NilCmd] (key m k)"
| "Update m (MouseMsg MouseButtonWheelUp x y) = with_cmds [] (scroll m (offset (viewport m) - 3))"
| "Update m (MouseMsg MouseButtonWheelDown x y) = with_cmds [] (scroll m (offset (viewport m) + 3))"
| "Update m (MouseMsg MouseButtonLeft x y) = with_cmds [] (with_source m (\<lambda>s. click (viewport m) s x y))"
| "Update m (MouseMsg _ x y) = Inr (m, [])"
| "Update m (TreeReloadMsg t cs) =
     with_cmds [UpdateViewport, ShowStatus ''Treesitter loaded successfully'']
       (with_source m (\<lambda>s. s\<lparr>colors := cs, tree := t\<rparr>))"
| "Update m _ = Inr (m, [])"

section \<open>Syntax highlighting\<close>

text \<open>
  The parser library (go-tree-sitter) and the three embedded \<^verbatim>\<open>highlights.scm\<close> queries are
  outside the package's source and are parameters here: for a language, the tree
  \<^verbatim>\<open>sitter.ParseCtx\<close> returns (its error is dropped by the source), the error of
  \<^verbatim>\<open>sitter.NewQuery\<close> on the language's query if there is one, and the matches that
  \<^verbatim>\<open>qc.NextMatch\<close> yields until it reports no more, each after \<^verbatim>\<open>qc.FilterPredicates\<close>, as
  the list of its captures. A capture carries the name \<^verbatim>\<open>q.CaptureNameForId(c.Index)\<close> and
  the \<^verbatim>\<open>StartByte()\<close> and \<^verbatim>\<open>EndByte()\<close> of its node. These two are \<^verbatim>\<open>uint32\<close>; the loop
  over them counts up to \<^verbatim>\<open>EndByte()\<close> and no further, so they are natural numbers here.
\<close>

datatype Language = Golang | Rust | Nix

datatype Capture = Capture (capName: string) (StartByte: nat) (EndByte: nat)

record sitter =
  ParseCtx :: "byte list \<Rightarrow> Language \<Rightarrow> Node option"
  NewQuery :: "Language \<Rightarrow> string option"
  Matches :: "Language \<Rightarrow> byte list \<Rightarrow> Capture list list"

text \<open>The \<^verbatim>\<open>if\<close> chain on the extension; \<open>None\<close> is its last branch, which panics.\<close>

definition language_of :: "string \<Rightarrow> Language option" where
  "language_of ext =
     (if ext = ''.go'' then Some Golang
      else if ext = ''.rs'' then Some Rust
      else if ext = ''.nix'' then Some Nix
      else None)"

text \<open>The \<^verbatim>\<open>switch name\<close> giving a capture its base16 color.\<close>

definition capture_color :: "string \<Rightarrow> byte" where
  "capture_color name =
     (if name = ''attribute'' then 0x0E
      else if name = ''comment'' then 0x03
      else if name = ''constant.builtin'' then 0x09
      else if name = ''escape'' then 0x0C
      else if name = ''function'' \<or> name = ''function.method'' \<or> name = ''function.macro'' then 0x0D
      else if name = ''keyword'' then 0x0E
      else if name = ''label'' then 0x0C
      else if name = ''number'' then 0x09
      else if name = ''operator'' then 0x0C
      else if name = ''package'' then 0x0D
      else if name = ''property'' then 0x0D
      else if name = ''punctuation.bracket'' then 0x05
      else if name = ''string'' then 0x0B
      else if name = ''type'' \<or> name = ''type.builtin'' then 0x0A
      else if name = ''variable.member'' then 0x0C
      else if name = ''variable.parameter'' then 0x08
      else 0x05)"

text \<open>\<^verbatim>\<open>for index := c.Node.StartByte(); index < c.Node.EndByte(); index++ { colors[index] = color }\<close>
  over the indices still to visit; an index past the slice panics.\<close>

fun paint :: "byte \<Rightarrow> nat list \<Rightarrow> byte list \<Rightarrow> panic + byte list" where
  "paint color [] cs = Inr cs"
| "paint color (index # rest) cs =
     (if index < length cs then paint color rest (cs[index := color])
      else Inl (IndexOutOfRange index (length cs)))"

text \<open>\<^verbatim>\<open>for _, c := range m.Captures\<close>.\<close>

fun paint_captures :: "Capture list \<Rightarrow> byte list \<Rightarrow> panic + byte list" where
  "paint_captures [] cs = Inr cs"
| "paint_captures (c # rest) cs =
     (case paint (capture_color (capName c)) [StartByte c ..< EndByte c] cs of
        Inl p \<Rightarrow> Inl p
      | Inr cs' \<Rightarrow> paint_captures rest cs')"

text \<open>The outer \<^verbatim>\<open>for\<close> over the matches.\<close>

fun paint_matches :: "Capture list list \<Rightarrow> byte list \<Rightarrow> panic + byte list" where
  "paint_matches [] cs = Inr cs"
| "paint_matches (m # rest) cs =
     (case paint_captures m cs of
        Inl p \<Rightarrow> Inl p
      | Inr cs' \<Rightarrow> paint_matches rest cs')"

text \<open>Running the command that \<^verbatim>\<open>GenerateSyntaxTree(sourceCode, ext)\<close> returns: the message
  it yields, or its panic.\<close>

definition GenerateSyntaxTree :: "sitter \<Rightarrow> SourceCode \<Rightarrow> string \<Rightarrow> panic + Msg" where
  "GenerateSyntaxTree ts sourceCode ext =
     (let cs = replicate (length (data sourceCode)) (0x05 :: byte) in
      case language_of ext of
        None \<Rightarrow> Inl (LogPanic (''Unsupported language: '' @ ext))
      | Some lang \<Rightarrow>
          (let t = ParseCtx ts (data sourceCode) lang in
           case NewQuery ts lang of
             Some err \<Rightarrow> Inl (LogPanic err)
           | None \<Rightarrow>
               (case paint_matches (Matches ts lang (data sourceCode)) cs of
                  Inl p \<Rightarrow> Inl p
                | Inr cs' \<Rightarrow> Inr (TreeReloadMsg t cs'))))"

section \<open>Vocabulary of the properties\<close>

text \<open>A sequence of calls of \<^verbatim>\<open>cursorLeft\<close> and \<^verbatim>\<open>cursorRight\<close> on one buffer.\<close>

datatype cursor_move = CursorLeft go_int | CursorRight go_int

fun apply_move :: "SourceCode \<Rightarrow> cursor_move \<Rightarrow> SourceCode" where
  "apply_move s (CursorLeft n) = cursorLeft s n"
| "apply_move s (CursorRight n) = cursorRight s n"

definition apply_moves :: "SourceCode \<Rightarrow> cursor_move list \<Rightarrow> SourceCode" where
  "apply_moves s ms = foldl apply_move s ms"

text \<open>A value limited to the closed interval \<open>[low, high]\<close>, as the specification words
  the limits of the cursor; the source's \<open>clamp\<close> stops one short of \<open>high\<close>.\<close>

definition closed_clamp :: "go_int \<Rightarrow> go_int \<Rightarrow> go_int \<Rightarrow> go_int" where
  "closed_clamp val low high = go_max low (go_min val high)"

text \<open>The four scroll operations of \<^verbatim>\<open>Update\<close>: the message of each (a wheel event
  comes with the position \<open>x\<close>, \<open>y\<close> of the pointer, a key with none), the change of the
  offset it asks for, the commands it batches, and the offset it leaves.\<close>

datatype scroll_op = HalfPageUp | HalfPageDown | WheelUp | WheelDown

fun scroll_msg :: "scroll_op \<Rightarrow> go_int \<Rightarrow> go_int \<Rightarrow> Msg" where
  "scroll_msg HalfPageUp x y = KeyMsg ''ctrl+u''"
| "scroll_msg HalfPageDown x y = KeyMsg ''ctrl+d''"
| "scroll_msg WheelUp x y = MouseMsg MouseButtonWheelUp x y"
| "scroll_msg WheelDown x y = MouseMsg MouseButtonWheelDown x y"

fun scroll_delta :: "Viewport \<Rightarrow> scroll_op \<Rightarrow> go_int" where
  "scroll_delta vp HalfPageUp = - go_quo (height vp) 2"
| "scroll_delta vp HalfPageDown = go_quo (height vp) 2"
| "scroll_delta vp WheelUp = - 3"
| "scroll_delta vp WheelDown = 3"

fun scroll_cmds :: "scroll_op \<Rightarrow> Cmd list" where
  "scroll_cmds HalfPageUp = [NilCmd]"
| "scroll_cmds HalfPageDown = [NilCmd]"
| "scroll_cmds WheelUp = []"
| "scroll_cmds WheelDown = []"

definition scrolled :: "Model \<Rightarrow> SourceCode \<Rightarrow> scroll_op \<Rightarrow> go_int" where
  "scrolled m s op =
     clamp (offset (viewport m) + scroll_delta (viewport m) op) 0
       (map_len (lines s) - height (viewport m) + 2)"

text \<open>Half of a height rounded down, the step of the specification for half a page; the
  source steps by \<open>go_quo h 2\<close>.\<close>

definition floor_half :: "go_int \<Rightarrow> go_int" where
  "floor_half h = word_of_int (sint h div 2)"



text \<open>A capture covers the bytes of \<open>[StartByte, EndByte)\<close>. It lies within a buffer of \<open>n\<close>
  bytes when it ends there or is empty, as the node of a tree parsed from those bytes does.
  \<open>last_cover\<close> is the capture processed last among those covering a byte.\<close>

definition covers :: "Capture \<Rightarrow> nat \<Rightarrow> bool" where
  "covers c k = (StartByte c \<le> k \<and> k < EndByte c)"

definition in_bounds :: "nat \<Rightarrow> Capture \<Rightarrow> bool" where
  "in_bounds n c = (EndByte c \<le> n \<or> EndByte c \<le> StartByte c)"

definition last_cover :: "Capture list \<Rightarrow> nat \<Rightarrow> Capture option" where
  "last_cover caps k = find (\<lambda>c. covers c k) (rev caps)"

text \<open>The capture names that the \<^verbatim>\<open>switch\<close> of \<^verbatim>\<open>GenerateSyntaxTree\<close> lists.\<close>

definition palette_names :: "string list" where
  "palette_names =
     [''attribute'', ''comment'', ''constant.builtin'', ''escape'', ''function'',
      ''function.method'', ''function.macro'', ''keyword'', ''label'', ''number'', ''operator'',
      ''package'', ''property'', ''punctuation.bracket'', ''string'', ''type'', ''type.builtin'',
      ''variable.member'', ''variable.parameter'']"

text \<open>
  The rows of a byte sequence, for the statements about the line index: \<open>rows_of\<close> cuts
  the bytes at each newline (byte 10) and gives the rows that a newline ends, without it;
  \<open>tail_of\<close> is what follows the last newline. \<open>row_start\<close> is the offset of the first
  byte of a row, \<open>leading_ws\<close> the run of tabs (9) and spaces (32) a row begins with,
  \<open>indent_of\<close> its width with a tab counted 4, and \<open>index_rows\<close> the map holding each of
  the rows under its number.
\<close>

fun rows_of :: "byte list \<Rightarrow> byte list list" where
  "rows_of [] = []"
| "rows_of (b # bs) =
     (if b = 10 then [] # rows_of bs
      else (case rows_of bs of [] \<Rightarrow> [] | r # rs \<Rightarrow> (b # r) # rs))"

definition tail_of :: "byte list \<Rightarrow> byte list" where
  "tail_of bs = rev (takeWhile (\<lambda>b. b \<noteq> 10) (rev bs))"

definition leading_ws :: "byte list \<Rightarrow> byte list" where
  "leading_ws row = takeWhile (\<lambda>b. b = 9 \<or> b = 32) row"

definition indent_of :: "byte list \<Rightarrow> go_int" where
  "indent_of row =
     4 * word_of_nat (count_list (leading_ws row) 9) + word_of_nat (count_list (leading_ws row) 32)"

definition row_start :: "byte list list \<Rightarrow> nat \<Rightarrow> nat" where
  "row_start rows k = length (concat (map (\<lambda>r. r @ [10]) (take k rows)))"

fun index_rows ::
  "go_int \<Rightarrow> go_int \<Rightarrow> byte list list \<Rightarrow> (go_int, LineInfo) fmap \<Rightarrow> (go_int, LineInfo) fmap" where
  "index_rows p c [] m = m"
| "index_rows p c (r # rs) m =
     index_rows (p + len r + 1) (c + 1) rs
       (fmupd c \<lparr>start = p, endpos = p + len r, indentation = indent_of r\<rparr> m)"

subsection \<open>Concrete inputs\<close>

text \<open>\<^verbatim>\<open>SourceCode{}\<close>, as \<^verbatim>\<open>OpenFile\<close> makes it before it calls \<^verbatim>\<open>SetSource\<close>.\<close>

definition emptySourceCode :: SourceCode where
  "emptySourceCode = \<lparr>data = [], colors = [], cursor = 0, tree = None, lines = fmempty\<rparr>"

text \<open>The buffer of a file holding \<^verbatim>\<open>"a\nbb\n"\<close>, and a model showing it in 22 rows.\<close>

definition two_rows :: SourceCode where
  "two_rows = SetSource emptySourceCode [97, 10, 98, 98, 10]"

definition two_rows_model :: Model where
  "two_rows_model =
     \<lparr>Path = ''/tmp/a.go'', fd = Some 3, Focused = True, modified = False, ready = True,
      source = Some two_rows, viewport = \<lparr>offset = 0, width = 80, height = 22\<rparr>\<rparr>"

text \<open>The buffer of \<^verbatim>\<open>"a\nb"\<close> with the cursor on its last byte, and a model showing it.\<close>

definition at_last_byte :: SourceCode where
  "at_last_byte = (SetSource emptySourceCode [97, 10, 98])\<lparr>cursor := 2\<rparr>"

definition at_last_byte_model :: Model where
  "at_last_byte_model =
     \<lparr>Path = ''/tmp/a.go'', fd = Some 3, Focused = True, modified = False, ready = True,
      source = Some at_last_byte, viewport = \<lparr>offset = 0, width = 80, height = 22\<rparr>\<rparr>"

text \<open>The buffer of \<^verbatim>\<open>"a\nb\nc\nd\ne\n"\<close>, shown in 4 rows.\<close>

definition five_rows :: SourceCode where
  "five_rows = SetSource emptySourceCode [97, 10, 98, 10, 99, 10, 100, 10, 101, 10]"

definition five_rows_model :: Model where
  "five_rows_model =
     \<lparr>Path = ''/tmp/a.go'', fd = Some 3, Focused = True, modified = False, ready = True,
      source = Some five_rows, viewport = \<lparr>offset = 0, width = 80, height = 4\<rparr>\<rparr>"

text \<open>The same buffer scrolled to row 3, after the terminal shrank to one line: the
  height of the viewport is that of the window less 2.\<close>

definition one_line_model :: Model where
  "one_line_model =
     \<lparr>Path = ''/tmp/a.go'', fd = Some 3, Focused = True, modified = False, ready = True,
      source = Some five_rows, viewport = \<lparr>offset = 3, width = 80, height = - 1\<rparr>\<rparr>"



text \<open>A parser whose queries compile and match nothing, and one that yields a match
  capturing \<open>[2,5)\<close> as a string and then a match capturing \<open>[3,4)\<close> as an escape, as on
  the six bytes of \<open>quoted\<close>.\<close>

definition no_matches :: sitter where
  "no_matches =
     \<lparr>ParseCtx = (\<lambda>src lang. Some (Node 0)),
      NewQuery = (\<lambda>lang. None),
      Matches = (\<lambda>lang src. [])\<rparr>"

definition string_escape :: sitter where
  "string_escape =
     \<lparr>ParseCtx = (\<lambda>src lang. Some (Node 1)),
      NewQuery = (\<lambda>lang. None),
      Matches = (\<lambda>lang src. [[Capture ''string'' 2 5], [Capture ''escape'' 3 4]])\<rparr>"

definition quoted :: SourceCode where
  "quoted = SetSource emptySourceCode [120, 61, 34, 92, 34, 10]"

section \<open>Signed arithmetic on 64 bits\<close>

lemma go_int_eqI: "sint a = sint b \<Longrightarrow> a = b" for a b :: go_int
  by (rule signed_word_eqI)

lemma sint_bounds: "- (2 ^ 63) \<le> sint (a :: go_int)" "sint (a :: go_int) < 2 ^ 63"
  using sint_ge [of a] sint_lt [of a] by simp_all

lemma sint_go_min: "sint (go_min a b) = min (sint a) (sint b)"
  by (simp add: go_min_def word_sle_eq min_def)

lemma sint_go_max: "sint (go_max a b) = max (sint a) (sint b)"
  by (simp add: go_max_def word_sle_eq max_def)

lemma sint_go_int: "- (2 ^ 63) \<le> k \<Longrightarrow> k < 2 ^ 63 \<Longrightarrow> sint (word_of_int k :: go_int) = k"
  by (simp add: sint_sbintrunc' signed_take_bit_int_eq_self_iff)

lemma sint_word_of_nat: "n < 2 ^ 63 \<Longrightarrow> sint (word_of_nat n :: go_int) = int n"
  using sint_go_int [of "int n"] by simp

lemma sint_len: "length xs < 2 ^ 63 \<Longrightarrow> sint (len xs) = int (length xs)"
  by (simp add: len_def sint_word_of_nat)

lemma sint_diff:
  fixes a b :: go_int
  shows "- (2 ^ 63) \<le> sint a - sint b \<Longrightarrow> sint a - sint b < 2 ^ 63 \<Longrightarrow>
    sint (a - b) = sint a - sint b"
  by (simp add: sint_word_diff signed_take_bit_int_eq_self_iff)

lemma sint_sum:
  fixes a b :: go_int
  shows "- (2 ^ 63) \<le> sint a + sint b \<Longrightarrow> sint a + sint b < 2 ^ 63 \<Longrightarrow>
    sint (a + b) = sint a + sint b"
  by (simp add: sint_word_ariths signed_take_bit_int_eq_self_iff)

lemma sint_pred: "- (2 ^ 63) < sint (a :: go_int) \<Longrightarrow> sint (a - 1) = sint a - 1"
  using sint_diff [of a 1] sint_bounds [of a] by simp

text \<open>What \<^verbatim>\<open>clamp\<close> returns, read as integers: never below \<open>low\<close>, and \<open>high - 1\<close> is
  computed on 64 bits.\<close>

lemma sint_clamp:
  "sint (clamp val low high) = max (sint low) (min (sint val) (sint (high - 1)))"
  by (simp add: clamp_def sint_go_max sint_go_min)

text \<open>The definitions that evaluate \<^verbatim>\<open>SetSource\<close> on given bytes.\<close>

lemmas scan_defs =
  SetSource_def scan_init_def scan_byte_def scan_reset_def scan_indent_def scan_commit_def

section \<open>Cursor movement\<close>

lemma clamp_len_range:
  assumes "length xs < 2 ^ 63"
  shows "0 \<le> sint (clamp v 0 (len xs)) \<and>
         sint (clamp v 0 (len xs)) \<le> max 0 (int (length xs) - 1)"
proof -
  have "sint (len xs - 1) = int (length xs) - 1"
    using assms sint_pred [of "len xs"] by (simp add: sint_len)
  then show ?thesis
    by (simp add: sint_clamp)
qed

lemma apply_move_data: "data (apply_move s mv) = data s"
  by (cases mv) (simp_all add: cursorLeft_def cursorRight_def)

lemma apply_moves_data: "data (apply_moves s ms) = data s"
  unfolding apply_moves_def
  by (induction ms arbitrary: s) (simp_all add: apply_move_data)

text \<open>One call leaves the cursor on a byte of the buffer, at 0 when the buffer is empty,
  whatever the cursor and the step were.\<close>

lemma apply_move_range:
  assumes "length (data s) < 2 ^ 63"
  shows "0 \<le> sint (cursor (apply_move s mv)) \<and>
         sint (cursor (apply_move s mv)) \<le> max 0 (int (length (data s)) - 1)"
  using clamp_len_range [OF assms] by (cases mv) (simp_all add: cursorLeft_def cursorRight_def)

lemma sint_clamp_len:
  assumes "length xs < 2 ^ 63"
  shows "sint (clamp v 0 (len xs)) = max 0 (min (sint v) (int (length xs) - 1))"
proof -
  have "sint (len xs - 1) = int (length xs) - 1"
    using assms sint_pred [of "len xs"] by (simp add: sint_len)
  then show ?thesis
    by (simp add: sint_clamp)
qed

lemma apply_moves_range:
  assumes "length (data s) < 2 ^ 63" and "ms \<noteq> []"
  shows "0 \<le> sint (cursor (apply_moves s ms)) \<and>
         sint (cursor (apply_moves s ms)) \<le> max 0 (int (length (data s)) - 1)"
proof -
  obtain ms' mv where ms: "ms = ms' @ [mv]"
    using assms(2) by (metis rev_exhaust)
  have "apply_moves s ms = apply_move (apply_moves s ms') mv"
    by (simp add: ms apply_moves_def)
  moreover have "length (data (apply_moves s ms')) < 2 ^ 63"
    using assms(1) by (simp add: apply_moves_data)
  ultimately show ?thesis
    using apply_move_range [of "apply_moves s ms'" mv] by (simp add: apply_moves_data)
qed

text \<open>
  Claim C8, as stated, fails in its first half: a step right from the last byte does not
  move the cursor, and the cursor does not reach \<open>len(data)\<close>. On \<^verbatim>\<open>"a\nb"\<close> with the
  cursor on byte 2, \<^verbatim>\<open>cursorRight(1)\<close> and the key \<^verbatim>\<open>l\<close> leave it on byte 2, where one
  byte further, limited to \<open>[0, len(data)] = [0, 3]\<close>, is 3.
\<close>

theorem cursor_right_end_counterexample:
  "len (data at_last_byte) = 3 \<and> cursor at_last_byte = 2 \<and>
   cursor (cursorRight at_last_byte 1) = 2 \<and>
   cursorRight at_last_byte 1 = at_last_byte \<and>
   Update at_last_byte_model (KeyMsg ''l'') = Inr (at_last_byte_model, [NilCmd]) \<and>
   closed_clamp (cursor at_last_byte + 1) 0 (len (data at_last_byte)) = 3"
  by (simp add: at_last_byte_model_def at_last_byte_def SetSource_def emptySourceCode_def
      key_def with_cmds_def with_source_def cursorRight_def closed_clamp_def
      clamp_def go_min_def go_max_def len_def word_sle_eq)

text \<open>
  Claim C8, amended. On a buffer of fewer than \<open>2 ^ 63\<close> bytes, \<^verbatim>\<open>cursorLeft(n)\<close> and
  \<^verbatim>\<open>cursorRight(n)\<close> change the cursor alone and set it to \<open>cursor - n\<close> and \<open>cursor + n\<close>
  (computed on 64 bits) limited to \<open>[0, len(data) - 1]\<close>, to 0 on an empty buffer. With
  \<open>n = 1\<close>, as the keys \<^verbatim>\<open>h\<close> and \<^verbatim>\<open>l\<close> call them, they move the cursor by one byte when
  the byte aimed at is within \<open>[0, len(data) - 1]\<close>. After one or more calls, in any order
  and with any steps, from any cursor, the cursor lies in \<open>[0, max(0, len(data) - 1)]\<close> and
  so in \<open>[0, len(data)]\<close>.
\<close>

theorem cursor_moves_clamped:
  assumes "length (data s) < 2 ^ 63"
  shows "cursorRight s n = s\<lparr>cursor := cursor (cursorRight s n)\<rparr> \<and>
         cursorLeft s n = s\<lparr>cursor := cursor (cursorLeft s n)\<rparr> \<and>
         sint (cursor (cursorRight s n)) =
           max 0 (min (sint (cursor s + n)) (int (length (data s)) - 1)) \<and>
         sint (cursor (cursorLeft s n)) =
           max 0 (min (sint (cursor s - n)) (int (length (data s)) - 1)) \<and>
         (0 \<le> sint (cursor s) + 1 \<and> sint (cursor s) + 1 < int (length (data s)) \<longrightarrow>
            sint (cursor (cursorRight s 1)) = sint (cursor s) + 1) \<and>
         (0 \<le> sint (cursor s) - 1 \<and> sint (cursor s) - 1 < int (length (data s)) \<longrightarrow>
            sint (cursor (cursorLeft s 1)) = sint (cursor s) - 1) \<and>
         (ms \<noteq> [] \<longrightarrow>
            0 \<le> sint (cursor (apply_moves s ms)) \<and>
            sint (cursor (apply_moves s ms)) \<le> max 0 (int (length (data s)) - 1) \<and>
            sint (cursor (apply_moves s ms)) \<le> int (length (data s))) \<and>
         (source m = Some s \<longrightarrow>
            Update m (KeyMsg ''l'') = Inr (m\<lparr>source := Some (cursorRight s 1)\<rparr>, [NilCmd]) \<and>
            Update m (KeyMsg ''h'') = Inr (m\<lparr>source := Some (cursorLeft s 1)\<rparr>, [NilCmd]))"
proof -
  note c = sint_clamp_len [OF assms]
  have len: "int (length (data s)) < 2 ^ 63"
    using assms by (metis of_nat_less_iff of_nat_numeral of_nat_power)
  have frame: "cursorRight s n = s\<lparr>cursor := cursor (cursorRight s n)\<rparr>"
    "cursorLeft s n = s\<lparr>cursor := cursor (cursorLeft s n)\<rparr>"
    by (simp_all add: cursorRight_def cursorLeft_def)
  have val: "sint (cursor (cursorRight s n)) =
      max 0 (min (sint (cursor s + n)) (int (length (data s)) - 1))"
    "sint (cursor (cursorLeft s n)) =
      max 0 (min (sint (cursor s - n)) (int (length (data s)) - 1))"
    by (simp_all add: cursorRight_def cursorLeft_def c)
  have right: "sint (cursor (cursorRight s 1)) = sint (cursor s) + 1"
    if "0 \<le> sint (cursor s) + 1" "sint (cursor s) + 1 < int (length (data s))"
  proof -
    have "sint (cursor s + 1) = sint (cursor s) + 1"
      using that len sint_sum [of "cursor s" 1] by simp
    then show ?thesis
      using that by (simp add: cursorRight_def c)
  qed
  have left: "sint (cursor (cursorLeft s 1)) = sint (cursor s) - 1"
    if "0 \<le> sint (cursor s) - 1" "sint (cursor s) - 1 < int (length (data s))"
  proof -
    have "sint (cursor s - 1) = sint (cursor s) - 1"
      using that sint_pred [of "cursor s"] sint_bounds [of "cursor s"] by simp
    then show ?thesis
      using that by (simp add: cursorLeft_def c)
  qed
  have many: "0 \<le> sint (cursor (apply_moves s ms)) \<and>
      sint (cursor (apply_moves s ms)) \<le> max 0 (int (length (data s)) - 1) \<and>
      sint (cursor (apply_moves s ms)) \<le> int (length (data s))" if "ms \<noteq> []"
    using apply_moves_range [OF assms that] by linarith
  have keys: "Update m (KeyMsg ''l'') = Inr (m\<lparr>source := Some (cursorRight s 1)\<rparr>, [NilCmd]) \<and>
      Update m (KeyMsg ''h'') = Inr (m\<lparr>source := Some (cursorLeft s 1)\<rparr>, [NilCmd])"
    if "source m = Some s"
    using that by (simp add: key_def with_cmds_def with_source_def)
  show ?thesis
    using frame val right left many keys by blast
qed

text \<open>On \<^verbatim>\<open>"a\nb"\<close> from the cursor at byte 1: a step right moves to byte 2, a step left
  to byte 0, and three steps right followed by one left end on byte 1.\<close>

theorem cursor_moves_clamped_witness:
  "length (data (SetSource emptySourceCode [97, 10, 98])) < 2 ^ 63 \<and>
   sint (cursor (cursorRight ((SetSource emptySourceCode [97, 10, 98])\<lparr>cursor := 1\<rparr>) 1)) = 2 \<and>
   sint (cursor (cursorLeft ((SetSource emptySourceCode [97, 10, 98])\<lparr>cursor := 1\<rparr>) 1)) = 0 \<and>
   [CursorRight 1, CursorRight 1, CursorRight 1, CursorLeft 1] \<noteq> [] \<and>
   sint (cursor (apply_moves ((SetSource emptySourceCode [97, 10, 98])\<lparr>cursor := 1\<rparr>)
     [CursorRight 1, CursorRight 1, CursorRight 1, CursorLeft 1])) = 1 \<and>
   source at_last_byte_model = Some at_last_byte \<and>
   Update at_last_byte_model (KeyMsg ''h'') =
     Inr (at_last_byte_model\<lparr>source := Some (at_last_byte\<lparr>cursor := 1\<rparr>)\<rparr>, [NilCmd])"
proof -
  have b: "length (data ((SetSource emptySourceCode [97, 10, 98])\<lparr>cursor := 1\<rparr>)) < 2 ^ 63"
    "length (data at_last_byte) < 2 ^ 63"
    by (simp_all add: SetSource_def at_last_byte_def)
  show ?thesis
    using cursor_moves_clamped [OF b(1), of 1
        "[CursorRight 1, CursorRight 1, CursorRight 1, CursorLeft 1]" at_last_byte_model]
      cursor_moves_clamped [OF b(2), of 1 "[CursorLeft 1]" at_last_byte_model]
    by (simp add: SetSource_def emptySourceCode_def at_last_byte_def at_last_byte_model_def
        apply_moves_def cursorLeft_def cursorRight_def clamp_def go_min_def go_max_def
        len_def word_sle_eq)
qed

text \<open>
  Claim C10. \<^verbatim>\<open>cursorDown\<close> and \<^verbatim>\<open>cursorUp\<close> return the buffer they were given, for every
  buffer and every argument, and the keys \<^verbatim>\<open>j\<close> and \<^verbatim>\<open>k\<close>, which call them, leave the
  whole model as it was (also when the model has no buffer).
\<close>

theorem cursor_down_up_noop:
  "cursorDown s n = s \<and> cursorUp s n = s \<and>
   Update m (KeyMsg ''j'') = Inr (m, [NilCmd]) \<and> Update m (KeyMsg ''k'') = Inr (m, [NilCmd])"
  by (cases "source m") (simp_all add: cursorDown_def cursorUp_def key_def with_cmds_def)

theorem cursor_down_up_noop_witness:
  "cursorDown two_rows 1 = two_rows \<and> cursorUp two_rows 1 = two_rows \<and>
   Update two_rows_model (KeyMsg ''j'') = Inr (two_rows_model, [NilCmd]) \<and>
   Update two_rows_model (KeyMsg ''k'') = Inr (two_rows_model, [NilCmd])"
  using cursor_down_up_noop [of two_rows 1 two_rows_model] by simp

section \<open>Clicks\<close>

text \<open>
  Claim C9. A left click on a row that the line index does not hold sets the cursor to 0,
  whatever the column: the row reads as the zero \<^verbatim>\<open>LineInfo\<close>.
\<close>

theorem click_missing_row:
  assumes "source m = Some s" and "fmlookup (lines s) (offset (viewport m) + y) = None"
  shows "Update m (MouseMsg MouseButtonLeft x y) =
         Inr (m\<lparr>source := Some (s\<lparr>cursor := 0\<rparr>)\<rparr>, [])"
proof -
  have line: "map_index (lines s) (offset (viewport m) + y) = zeroLineInfo"
    using assms(2) by (simp add: map_index_def)
  have "clamp (0 + p) 0 (0 + 1) = 0" for p :: go_int
    by (rule go_int_eqI) (simp add: sint_clamp)
  then show ?thesis
    using assms(1) line
    by (simp add: with_cmds_def with_source_def click_def click_pos_def Let_def zeroLineInfo_def)
qed

text \<open>A click at column 26, seven rows down, on the buffer of two rows.\<close>

theorem click_missing_row_witness:
  "source two_rows_model = Some two_rows \<and>
   fmlookup (lines two_rows) (offset (viewport two_rows_model) + 7) = None \<and>
   Update two_rows_model (MouseMsg MouseButtonLeft 26 7) =
     Inr (two_rows_model\<lparr>source := Some (two_rows\<lparr>cursor := 0\<rparr>)\<rparr>, [])"
proof -
  have src: "source two_rows_model = Some two_rows"
    by (simp add: two_rows_model_def)
  have row: "fmlookup (lines two_rows) (offset (viewport two_rows_model) + 7) = None"
    by (simp add: two_rows_model_def two_rows_def emptySourceCode_def scan_defs)
  show ?thesis
    using click_missing_row [OF src row, of 26] src row by simp
qed


lemma lines_five_rows:
  "lines five_rows =
     fmupd 4 \<lparr>start = 8, endpos = 9, indentation = 0\<rparr>
      (fmupd 3 \<lparr>start = 6, endpos = 7, indentation = 0\<rparr>
        (fmupd 2 \<lparr>start = 4, endpos = 5, indentation = 0\<rparr>
          (fmupd 1 \<lparr>start = 2, endpos = 3, indentation = 0\<rparr>
            (fmupd 0 \<lparr>start = 0, endpos = 1, indentation = 0\<rparr> fmempty))))"
  by (simp add: five_rows_def emptySourceCode_def scan_defs)

lemma five_rows_count: "fcard (fmdom (lines five_rows)) = 5"
  by (simp add: lines_five_rows fcard_finsert_if)







section \<open>Scrolling\<close>

lemma sint_map_len: "fcard (fmdom ls) < 2 ^ 61 \<Longrightarrow> sint (map_len ls) = int (fcard (fmdom ls))"
  by (simp add: map_len_def sint_word_of_nat)

text \<open>The bound \<^verbatim>\<open>len(m.source.lines) - m.viewport.height + 2\<close> does not wrap around for a
  height and a number of rows below \<open>2 ^ 61\<close>.\<close>

lemma sint_scroll_bound:
  assumes "fcard (fmdom ls) < 2 ^ 61" and "- (2 ^ 61) \<le> sint h" and "sint h \<le> 2 ^ 61"
  shows "sint (map_len ls - h + 2) = int (fcard (fmdom ls)) - sint h + 2"
proof -
  have l: "sint (map_len ls) = int (fcard (fmdom ls))"
    using assms(1) by (rule sint_map_len)
  have d: "sint (map_len ls - h) = int (fcard (fmdom ls)) - sint h"
    using assms l sint_diff [of "map_len ls" h] by simp
  have "int (fcard (fmdom ls)) < 2 ^ 61"
    using assms(1) by (metis of_nat_less_iff of_nat_numeral of_nat_power)
  then show ?thesis
    using assms(2,3) d sint_sum [of "map_len ls - h" 2] by simp
qed

lemma clamp_zero_range:
  assumes "- (2 ^ 63) < sint hi"
  shows "0 \<le> sint (clamp v 0 hi) \<and> sint (clamp v 0 hi) \<le> max 0 (sint hi - 1)"
  using sint_pred [OF assms] by (simp add: sint_clamp)

lemma Update_scroll:
  assumes "source m = Some s"
  shows "Update m (scroll_msg op x y) =
         Inr (m\<lparr>viewport := (viewport m)\<lparr>offset := scrolled m s op\<rparr>\<rparr>, scroll_cmds op)"
  using assms by (cases op) (simp_all add: key_def scroll_def with_cmds_def scrolled_def)

text \<open>Go's quotient by 2 is the floor for a height that is not negative.\<close>

lemma go_quo_floor:
  assumes "0 \<le> sint h"
  shows "sint (go_quo h 2) = sint h div 2"
proof -
  have "sint h sdiv 2 = sint h div 2"
    using assms by (simp add: signed_divide_int_def sgn_if)
  moreover have "- (2 ^ 63) \<le> sint h div 2" "sint h div 2 < 2 ^ 63"
    using assms sint_bounds [of h] by simp_all
  ultimately show ?thesis
    by (simp add: go_quo_def sint_go_int)
qed

lemma go_quo_minus_one: "go_quo (- 1) 2 = 0"
  by (simp add: go_quo_def signed_divide_int_def)

text \<open>
  Claim C6, as stated, fails in its step for half a page: Go's \<^verbatim>\<open>/\<close> truncates towards
  zero. A window of one line makes the height \<open>-1\<close>, and \<^verbatim>\<open>ctrl+d\<close> then steps by
  \<open>-1/2 = 0\<close> and leaves the offset at 3, where the floor \<open>-1\<close> would lead to 2.
\<close>

theorem half_page_floor_counterexample:
  "Update (five_rows_model\<lparr>viewport := \<lparr>offset = 3, width = 80, height = 4\<rparr>\<rparr>)
     (WindowSizeMsg 80 1) = Inr (one_line_model, []) \<and>
   Update one_line_model (KeyMsg ''ctrl+d'') = Inr (one_line_model, [NilCmd]) \<and>
   offset (viewport one_line_model) = 3 \<and>
   go_quo (height (viewport one_line_model)) 2 = 0 \<and>
   floor_half (height (viewport one_line_model)) = - 1 \<and>
   clamp (offset (viewport one_line_model) + floor_half (height (viewport one_line_model))) 0
     (map_len (lines five_rows) - height (viewport one_line_model) + 2) = 2"
  by (simp add: one_line_model_def five_rows_model_def key_def scroll_def with_cmds_def
      map_len_def five_rows_count go_quo_minus_one floor_half_def
      clamp_def go_min_def go_max_def word_sle_eq)

text \<open>
  Claim C6, amended. On a model with a buffer of fewer than \<open>2 ^ 61\<close> rows and a height
  between \<open>- 2 ^ 61\<close> and \<open>2 ^ 61\<close> (where the bound is computed without wrap-around), each
  of the four scroll operations, a wheel event at any position \<open>x\<close>, \<open>y\<close> of the pointer,
  changes the offset alone and sets it to \<open>clamp(offset + delta, 0, rowCount - height + 2)\<close>,
  where \<open>delta\<close> is \<open>- (height/2)\<close> or \<open>height/2\<close> for half a page up or down, with Go's
  division that truncates towards zero, and \<open>-3\<close> or \<open>3\<close> for the wheel; from any offset the
  result lies in \<open>[0, max(0, rowCount - height + 2)]\<close>; and \<open>height/2\<close> is the floor of
  the half of a height that is not negative.
\<close>

theorem scroll_offset_in_range:
  assumes "source m = Some s"
    and "fcard (fmdom (lines s)) < 2 ^ 61"
    and "- (2 ^ 61) \<le> sint (height (viewport m))" and "sint (height (viewport m)) \<le> 2 ^ 61"
  shows "Update m (KeyMsg ''ctrl+u'') =
           Inr (m\<lparr>viewport := (viewport m)\<lparr>offset := scrolled m s HalfPageUp\<rparr>\<rparr>, [NilCmd]) \<and>
         Update m (KeyMsg ''ctrl+d'') =
           Inr (m\<lparr>viewport := (viewport m)\<lparr>offset := scrolled m s HalfPageDown\<rparr>\<rparr>, [NilCmd]) \<and>
         Update m (MouseMsg MouseButtonWheelUp x y) =
           Inr (m\<lparr>viewport := (viewport m)\<lparr>offset := scrolled m s WheelUp\<rparr>\<rparr>, []) \<and>
         Update m (MouseMsg MouseButtonWheelDown x y) =
           Inr (m\<lparr>viewport := (viewport m)\<lparr>offset := scrolled m s WheelDown\<rparr>\<rparr>, []) \<and>
         scrolled m s HalfPageUp =
           clamp (offset (viewport m) - go_quo (height (viewport m)) 2) 0
             (map_len (lines s) - height (viewport m) + 2) \<and>
         scrolled m s HalfPageDown =
           clamp (offset (viewport m) + go_quo (height (viewport m)) 2) 0
             (map_len (lines s) - height (viewport m) + 2) \<and>
         scrolled m s WheelUp =
           clamp (offset (viewport m) - 3) 0 (map_len (lines s) - height (viewport m) + 2) \<and>
         scrolled m s WheelDown =
           clamp (offset (viewport m) + 3) 0 (map_len (lines s) - height (viewport m) + 2) \<and>
         0 \<le> sint (scrolled m s op) \<and>
         sint (scrolled m s op) \<le>
           max 0 (int (fcard (fmdom (lines s))) - sint (height (viewport m)) + 2) \<and>
         (0 \<le> sint (height (viewport m)) \<longrightarrow>
           sint (go_quo (height (viewport m)) 2) = sint (height (viewport m)) div 2)"
proof -
  have b: "sint (map_len (lines s) - height (viewport m) + 2) =
      int (fcard (fmdom (lines s))) - sint (height (viewport m)) + 2"
    using assms(2-4) by (rule sint_scroll_bound)
  then have "- (2 ^ 63) < sint (map_len (lines s) - height (viewport m) + 2)"
    using assms(4) by simp
  from clamp_zero_range [OF this, of "offset (viewport m) + scroll_delta (viewport m) op"] b
  have r: "0 \<le> sint (scrolled m s op) \<and>
      sint (scrolled m s op) \<le>
        max 0 (int (fcard (fmdom (lines s))) - sint (height (viewport m)) + 2)"
    unfolding scrolled_def by linarith
  have u: "Update m (KeyMsg ''ctrl+u'') =
           Inr (m\<lparr>viewport := (viewport m)\<lparr>offset := scrolled m s HalfPageUp\<rparr>\<rparr>, [NilCmd])"
    "Update m (KeyMsg ''ctrl+d'') =
           Inr (m\<lparr>viewport := (viewport m)\<lparr>offset := scrolled m s HalfPageDown\<rparr>\<rparr>, [NilCmd])"
    "Update m (MouseMsg MouseButtonWheelUp x y) =
           Inr (m\<lparr>viewport := (viewport m)\<lparr>offset := scrolled m s WheelUp\<rparr>\<rparr>, [])"
    "Update m (MouseMsg MouseButtonWheelDown x y) =
           Inr (m\<lparr>viewport := (viewport m)\<lparr>offset := scrolled m s WheelDown\<rparr>\<rparr>, [])"
    using Update_scroll [OF assms(1), of HalfPageUp x y]
      Update_scroll [OF assms(1), of HalfPageDown x y]
      Update_scroll [OF assms(1), of WheelUp x y]
      Update_scroll [OF assms(1), of WheelDown x y]
    by simp_all
  show ?thesis
    using r u go_quo_floor by (simp add: scrolled_def)
qed

text \<open>Five rows in a viewport of four: half a page down from the top stops at row 2, and
  so does the wheel turned down with the pointer at column 17 of row 3.\<close>

theorem scroll_offset_in_range_witness:
  "source five_rows_model = Some five_rows \<and>
   fcard (fmdom (lines five_rows)) < 2 ^ 61 \<and>
   - (2 ^ 61) \<le> sint (height (viewport five_rows_model)) \<and>
   sint (height (viewport five_rows_model)) \<le> 2 ^ 61 \<and>
   Update five_rows_model (KeyMsg ''ctrl+d'') =
     Inr (five_rows_model\<lparr>viewport := \<lparr>offset = 2, width = 80, height = 4\<rparr>\<rparr>, [NilCmd]) \<and>
   Update five_rows_model (MouseMsg MouseButtonWheelDown 17 3) =
     Inr (five_rows_model\<lparr>viewport := \<lparr>offset = 2, width = 80, height = 4\<rparr>\<rparr>, []) \<and>
   Update five_rows_model (MouseMsg MouseButtonWheelUp 17 3) =
     Inr (five_rows_model\<lparr>viewport := \<lparr>offset = 0, width = 80, height = 4\<rparr>\<rparr>, []) \<and>
   scrolled five_rows_model five_rows HalfPageDown = 2"
proof -
  have src: "source five_rows_model = Some five_rows"
    by (simp add: five_rows_model_def)
  have n: "fcard (fmdom (lines five_rows)) < 2 ^ 61"
    by (simp add: five_rows_count)
  have h: "- (2 ^ 61) \<le> sint (height (viewport five_rows_model))"
    "sint (height (viewport five_rows_model)) \<le> 2 ^ 61"
    by (simp_all add: five_rows_model_def)
  have q: "go_quo 4 2 = 2"
    by (simp add: go_quo_def signed_divide_int_def)
  have v: "scrolled five_rows_model five_rows HalfPageDown = 2"
    "scrolled five_rows_model five_rows WheelDown = 2"
    "scrolled five_rows_model five_rows WheelUp = 0"
    using q by (simp_all add: scrolled_def five_rows_model_def map_len_def five_rows_count
        clamp_def go_min_def go_max_def word_sle_eq)
  show ?thesis
    using scroll_offset_in_range [OF src n h, of 17 3 HalfPageDown] src n h v
    by (simp add: five_rows_model_def)
qed

section \<open>The color overlay\<close>

subsection \<open>Painting captures\<close>

lemma paint_Inr:
  assumes "\<forall>k\<in>set idx. k < length cs"
  shows "\<exists>cs'. paint color idx cs = Inr cs' \<and> length cs' = length cs \<and>
           (\<forall>j<length cs. cs' ! j = (if j \<in> set idx then color else cs ! j))"
  using assms
proof (induction idx arbitrary: cs)
  case Nil
  then show ?case by simp
next
  case (Cons k idx)
  have "\<forall>n\<in>set idx. n < length (cs[k := color])"
    using Cons.prems by simp
  from Cons.IH [OF this] obtain cs' where
    p: "paint color idx (cs[k := color]) = Inr cs'" and l: "length cs' = length cs"
    and v: "\<forall>j<length cs. cs' ! j = (if j \<in> set idx then color else cs[k := color] ! j)"
    by auto
  have "paint color (k # idx) cs = Inr cs'"
    using Cons.prems p by simp
  moreover have "\<forall>j<length cs. cs' ! j = (if j \<in> set (k # idx) then color else cs ! j)"
    using v by (auto simp: nth_list_update)
  ultimately show ?case using l by blast
qed

lemma paint_capture:
  assumes "in_bounds (length cs) c"
  shows "\<exists>cs'. paint (capture_color (capName c)) [StartByte c ..< EndByte c] cs = Inr cs' \<and>
           length cs' = length cs \<and>
           (\<forall>j<length cs. cs' ! j = (if covers c j then capture_color (capName c) else cs ! j))"
proof -
  have "\<forall>k\<in>set [StartByte c ..< EndByte c]. k < length cs"
    using assms by (auto simp: in_bounds_def)
  from paint_Inr [OF this, of "capture_color (capName c)"] show ?thesis
    by (simp add: covers_def)
qed

lemma last_cover_Nil: "last_cover [] k = None"
  by (simp add: last_cover_def)

lemma find_append:
  "find P (xs @ ys) = (case find P xs of None \<Rightarrow> find P ys | Some x \<Rightarrow> Some x)"
  by (induction xs) simp_all

lemma last_cover_Cons:
  "last_cover (c # caps) k =
     (case last_cover caps k of None \<Rightarrow> (if covers c k then Some c else None) | Some d \<Rightarrow> Some d)"
  by (simp add: last_cover_def find_append split: option.splits)

lemma last_cover_append:
  "last_cover (xs @ ys) k = (case last_cover ys k of None \<Rightarrow> last_cover xs k | Some d \<Rightarrow> Some d)"
  by (simp add: last_cover_def find_append split: option.splits)

lemma paint_captures_Inr:
  assumes "list_all (in_bounds (length cs)) caps"
  shows "\<exists>cs'. paint_captures caps cs = Inr cs' \<and> length cs' = length cs \<and>
           (\<forall>j<length cs. cs' ! j =
              (case last_cover caps j of None \<Rightarrow> cs ! j | Some c \<Rightarrow> capture_color (capName c)))"
  using assms
proof (induction caps arbitrary: cs)
  case Nil
  then show ?case by (simp add: last_cover_Nil)
next
  case (Cons c caps)
  from Cons.prems have "in_bounds (length cs) c" by simp
  from paint_capture [OF this] obtain cs1 where
    p1: "paint (capture_color (capName c)) [StartByte c ..< EndByte c] cs = Inr cs1"
    and l1: "length cs1 = length cs"
    and v1: "\<forall>j<length cs. cs1 ! j = (if covers c j then capture_color (capName c) else cs ! j)"
    by blast
  from Cons.prems l1 have "list_all (in_bounds (length cs1)) caps" by simp
  from Cons.IH [OF this] obtain cs' where
    p2: "paint_captures caps cs1 = Inr cs'" and l2: "length cs' = length cs1"
    and v2: "\<forall>j<length cs1. cs' ! j =
      (case last_cover caps j of None \<Rightarrow> cs1 ! j | Some d \<Rightarrow> capture_color (capName d))"
    by blast
  have "paint_captures (c # caps) cs = Inr cs'"
    using p1 p2 by simp
  moreover have "length cs' = length cs"
    using l1 l2 by simp
  moreover have "\<forall>j<length cs. cs' ! j =
      (case last_cover (c # caps) j of None \<Rightarrow> cs ! j | Some d \<Rightarrow> capture_color (capName d))"
    using v1 v2 l1 by (simp add: last_cover_Cons split: option.splits)
  ultimately show ?case by blast
qed

lemma paint_matches_Inr:
  assumes "list_all (in_bounds (length cs)) (concat ms)"
  shows "\<exists>cs'. paint_matches ms cs = Inr cs' \<and> length cs' = length cs \<and>
           (\<forall>j<length cs. cs' ! j =
              (case last_cover (concat ms) j of None \<Rightarrow> cs ! j
               | Some c \<Rightarrow> capture_color (capName c)))"
  using assms
proof (induction ms arbitrary: cs)
  case Nil
  then show ?case by (simp add: last_cover_Nil)
next
  case (Cons m ms)
  from Cons.prems have "list_all (in_bounds (length cs)) m" by simp
  from paint_captures_Inr [OF this] obtain cs1 where
    p1: "paint_captures m cs = Inr cs1"
    and l1: "length cs1 = length cs"
    and v1: "\<forall>j<length cs. cs1 ! j =
      (case last_cover m j of None \<Rightarrow> cs ! j | Some c \<Rightarrow> capture_color (capName c))"
    by blast
  from Cons.prems l1 have "list_all (in_bounds (length cs1)) (concat ms)" by simp
  from Cons.IH [OF this] obtain cs' where
    p2: "paint_matches ms cs1 = Inr cs'" and l2: "length cs' = length cs1"
    and v2: "\<forall>j<length cs1. cs' ! j =
      (case last_cover (concat ms) j of None \<Rightarrow> cs1 ! j | Some d \<Rightarrow> capture_color (capName d))"
    by blast
  have "paint_matches (m # ms) cs = Inr cs'"
    using p1 p2 by simp
  moreover have "length cs' = length cs"
    using l1 l2 by simp
  moreover have "\<forall>j<length cs. cs' ! j =
      (case last_cover (concat (m # ms)) j of None \<Rightarrow> cs ! j
       | Some d \<Rightarrow> capture_color (capName d))"
    using v1 v2 l1 by (simp add: last_cover_append split: option.splits)
  ultimately show ?case by blast
qed

lemma last_cover_split:
  assumes "caps = pre @ c # post" and "covers c k" and "\<forall>d\<in>set post. \<not> covers d k"
  shows "last_cover caps k = Some c"
proof -
  have "find (\<lambda>c. covers c k) (rev post) = None"
    using assms(3) by (simp add: find_None_iff)
  then show ?thesis
    using assms(1,2) by (simp add: last_cover_def find_append)
qed

lemma capture_color_default: "name \<notin> set palette_names \<Longrightarrow> capture_color name = 0x05"
  by (simp add: palette_names_def capture_color_def)

lemma find_SomeD: "find P xs = Some x \<Longrightarrow> x \<in> set xs \<and> P x"
  by (induction xs) (auto split: if_splits)

lemma last_cover_Some:
  assumes "last_cover caps k = Some c"
  shows "c \<in> set caps \<and> covers c k"
  using find_SomeD [of "\<lambda>c. covers c k" "rev caps" c] assms by (simp add: last_cover_def)

text \<open>
  Claim C5. For a supported extension whose query compiles, and captures that lie within
  the buffer, the command yields a \<^verbatim>\<open>TreeReloadMsg\<close> whose colors are as many as the bytes;
  a byte holds the color of the capture processed last among those covering it (captures
  taken match after match, in order), and \<open>0x05\<close>, the color the overlay starts with, when
  no capture covers it or every capture covering it has a name outside the table.
\<close>

theorem overlay_last_write_wins:
  assumes "language_of ext = Some lang" and "NewQuery ts lang = None"
    and "list_all (in_bounds (length (data s))) (concat (Matches ts lang (data s)))"
  shows "\<exists>cs. GenerateSyntaxTree ts s ext = Inr (TreeReloadMsg (ParseCtx ts (data s) lang) cs) \<and>
           length cs = length (data s) \<and>
           (\<forall>k pre c post. k < length (data s) \<and>
              concat (Matches ts lang (data s)) = pre @ c # post \<and>
              covers c k \<and> (\<forall>d\<in>set post. \<not> covers d k) \<longrightarrow>
              cs ! k = capture_color (capName c)) \<and>
           (\<forall>k<length (data s).
              (\<forall>c\<in>set (concat (Matches ts lang (data s))).
                 covers c k \<longrightarrow> capName c \<notin> set palette_names) \<longrightarrow>
              cs ! k = 0x05)"
proof -
  let ?caps = "concat (Matches ts lang (data s))"
  let ?init = "replicate (length (data s)) (0x05 :: byte)"
  have "list_all (in_bounds (length ?init)) ?caps"
    using assms(3) by simp
  from paint_matches_Inr [OF this] obtain cs where
    p: "paint_matches (Matches ts lang (data s)) ?init = Inr cs"
    and l: "length cs = length (data s)"
    and v0: "\<forall>j<length ?init. cs ! j =
      (case last_cover ?caps j of None \<Rightarrow> ?init ! j | Some c \<Rightarrow> capture_color (capName c))"
    by auto
  have v: "\<forall>j<length (data s). cs ! j =
      (case last_cover ?caps j of None \<Rightarrow> 0x05 | Some c \<Rightarrow> capture_color (capName c))"
    using v0 by (auto split: option.splits)
  have g: "GenerateSyntaxTree ts s ext = Inr (TreeReloadMsg (ParseCtx ts (data s) lang) cs)"
    using assms(1,2) p by (simp add: GenerateSyntaxTree_def)
  have w: "cs ! k = capture_color (capName c)"
    if "k < length (data s)" "?caps = pre @ c # post" "covers c k" "\<forall>d\<in>set post. \<not> covers d k"
    for k pre c post
    using v that last_cover_split [of ?caps pre c post k] by simp
  have d: "cs ! k = 0x05"
    if "k < length (data s)" "\<forall>c\<in>set ?caps. covers c k \<longrightarrow> capName c \<notin> set palette_names"
    for k
  proof (cases "last_cover ?caps k")
    case None
    then show ?thesis using v that(1) by simp
  next
    case (Some c)
    then have "capName c \<notin> set palette_names"
      using last_cover_Some [OF Some] that(2) by blast
    then show ?thesis
      using v that(1) Some by (simp add: capture_color_default)
  qed
  show ?thesis
    using g l w d by blast
qed

text \<open>A string capture over \<open>[2,5)\<close>, then an escape capture over \<open>[3,4)\<close>: byte 3 holds
  the escape color \<open>0x0C\<close>, bytes 2 and 4 the string color \<open>0x0B\<close>, the others \<open>0x05\<close>.\<close>

theorem overlay_last_write_wins_witness:
  "language_of ''.go'' = Some Golang \<and> NewQuery string_escape Golang = None \<and>
   list_all (in_bounds (length (data quoted))) (concat (Matches string_escape Golang (data quoted))) \<and>
   GenerateSyntaxTree string_escape quoted ''.go'' =
     Inr (TreeReloadMsg (Some (Node 1)) [0x05, 0x05, 0x0B, 0x0C, 0x0B, 0x05])"
proof -
  have h: "language_of ''.go'' = Some Golang" "NewQuery string_escape Golang = None"
    "list_all (in_bounds (length (data quoted))) (concat (Matches string_escape Golang (data quoted)))"
    by (simp_all add: language_of_def string_escape_def quoted_def SetSource_def in_bounds_def)
  from overlay_last_write_wins [OF h] obtain cs where
    g: "GenerateSyntaxTree string_escape quoted ''.go'' =
        Inr (TreeReloadMsg (ParseCtx string_escape (data quoted) Golang) cs)"
    by blast
  have "GenerateSyntaxTree string_escape quoted ''.go'' =
     Inr (TreeReloadMsg (Some (Node 1)) [0x05, 0x05, 0x0B, 0x0C, 0x0B, 0x05])"
    by (simp add: GenerateSyntaxTree_def language_of_def string_escape_def quoted_def
        SetSource_def capture_color_def upt_rec numeral_eq_Suc)
  with h g show ?thesis by simp
qed

subsection \<open>An extension without a grammar\<close>

text \<open>
  Claim C3, as stated, fails: for the extension \<^verbatim>\<open>.xyz\<close> the command ends in the panic of
  \<^verbatim>\<open>log.Panicf\<close>, which is not a condition the host survives.
\<close>

theorem unsupported_language_counterexample:
  "GenerateSyntaxTree no_matches two_rows ''.xyz'' = Inl (LogPanic ''Unsupported language: .xyz'')"
  by (simp add: GenerateSyntaxTree_def language_of_def)

text \<open>
  Claim C3, amended. For every extension other than \<^verbatim>\<open>.go\<close>, \<^verbatim>\<open>.rs\<close> and \<^verbatim>\<open>.nix\<close> the
  command panics with the message \<^verbatim>\<open>Unsupported language:\<close> and the extension, before it
  parses and without a \<^verbatim>\<open>TreeReloadMsg\<close>; it writes no buffer, and a buffer as
  \<^verbatim>\<open>SetSource\<close> loads it holds the default color \<open>0x05\<close> in every byte.
\<close>

theorem unsupported_language_panics:
  assumes "ext \<noteq> ''.go''" and "ext \<noteq> ''.rs''" and "ext \<noteq> ''.nix''"
  shows "GenerateSyntaxTree ts sc ext = Inl (LogPanic (''Unsupported language: '' @ ext)) \<and>
         colors (SetSource s src) = replicate (length src) 0x05"
  using assms by (simp add: GenerateSyntaxTree_def language_of_def SetSource_def)

lemma two_rows_fields: "data two_rows = [97, 10, 98, 98, 10]" "colors two_rows = [5, 5, 5, 5, 5]"
  by (simp_all add: two_rows_def SetSource_def numeral_eq_Suc)

theorem unsupported_language_panics_witness:
  "''.xyz'' \<noteq> ''.go'' \<and> ''.xyz'' \<noteq> ''.rs'' \<and> ''.xyz'' \<noteq> ''.nix'' \<and>
   GenerateSyntaxTree no_matches two_rows ''.xyz'' = Inl (LogPanic ''Unsupported language: .xyz'') \<and>
   colors two_rows = [5, 5, 5, 5, 5]"
  using unsupported_language_panics [of "''.xyz''" no_matches two_rows emptySourceCode
      "[97, 10, 98, 98, 10]"]
  by (simp add: two_rows_def numeral_eq_Suc)

subsection \<open>Receiving the colors\<close>

lemma paint_length: "paint color idx cs = Inr cs' \<Longrightarrow> length cs' = length cs"
  by (induction idx arbitrary: cs) (auto split: if_splits)

lemma paint_captures_length: "paint_captures caps cs = Inr cs' \<Longrightarrow> length cs' = length cs"
  by (induction caps arbitrary: cs) (auto split: sum.splits dest: paint_length)

lemma paint_matches_length: "paint_matches ms cs = Inr cs' \<Longrightarrow> length cs' = length cs"
  by (induction ms arbitrary: cs) (auto split: sum.splits dest: paint_captures_length)

lemma GenerateSyntaxTree_length:
  assumes "GenerateSyntaxTree ts s ext = Inr (TreeReloadMsg t cs)"
  shows "length cs = length (data s)"
  using assms paint_matches_length
  by (fastforce simp: GenerateSyntaxTree_def Let_def split: option.splits sum.splits)

text \<open>What the handler does with any message: it installs the colors and the tree, and
  checks nothing. The colors that \<^verbatim>\<open>GenerateSyntaxTree\<close> computes from the buffer the model
  holds are as many as its bytes.\<close>

lemma Update_TreeReloadMsg:
  assumes "source m = Some s"
  shows "Update m (TreeReloadMsg t cs) =
           Inr (m\<lparr>source := Some (s\<lparr>colors := cs, tree := t\<rparr>)\<rparr>,
                [UpdateViewport, ShowStatus ''Treesitter loaded successfully'']) \<and>
         (GenerateSyntaxTree ts s ext = Inr (TreeReloadMsg t cs) \<longrightarrow>
            length cs = length (data s))"
  using assms GenerateSyntaxTree_length by (simp add: with_cmds_def with_source_def)

lemma lines_two_rows:
  "lines two_rows = fmupd 1 \<lparr>start = 2, endpos = 4, indentation = 0\<rparr>
     (fmupd 0 \<lparr>start = 0, endpos = 1, indentation = 0\<rparr> fmempty)"
  by (simp add: two_rows_def emptySourceCode_def scan_defs)

text \<open>
  Claim C1 is what the source says of its colors (\<^verbatim>\<open>Contains a base16 color for each
  character\<close>, \<^verbatim>\<open>One for each byte!\<close>), and the handler does not keep it: it checks no
  length and discards nothing. The model shows \<^verbatim>\<open>"a\nbb\n"\<close>, five bytes with five
  colors; the message that \<^verbatim>\<open>GenerateSyntaxTree\<close> computed for the three bytes
  \<^verbatim>\<open>"a\nb"\<close>, opened before, arrives; the handler installs its three colors for the five
  bytes, and the colors of row 1, bytes 2 to 4, which \<^verbatim>\<open>View\<close> asks of \<^verbatim>\<open>GetColors\<close>,
  are a slice out of bounds where they were two colors before.
\<close>

theorem stale_tree_reload_breaks_colors:
  "source two_rows_model = Some two_rows \<and>
   length (data two_rows) = 5 \<and> length (colors two_rows) = 5 \<and>
   GenerateSyntaxTree no_matches (SetSource emptySourceCode [97, 10, 98]) ''.go'' =
     Inr (TreeReloadMsg (Some (Node 0)) [5, 5, 5]) \<and>
   Update two_rows_model (TreeReloadMsg (Some (Node 0)) [5, 5, 5]) =
     Inr (two_rows_model\<lparr>source := Some (two_rows\<lparr>colors := [5, 5, 5], tree := Some (Node 0)\<rparr>)\<rparr>,
          [UpdateViewport, ShowStatus ''Treesitter loaded successfully'']) \<and>
   length (data (two_rows\<lparr>colors := [5, 5, 5], tree := Some (Node 0)\<rparr>)) = 5 \<and>
   length (colors (two_rows\<lparr>colors := [5, 5, 5], tree := Some (Node 0)\<rparr>)) = 3 \<and>
   map_index (lines (two_rows\<lparr>colors := [5, 5, 5], tree := Some (Node 0)\<rparr>)) 1 =
     \<lparr>start = 2, endpos = 4, indentation = 0\<rparr> \<and>
   GetColors two_rows 2 4 = Inr [5, 5] \<and>
   GetColors (two_rows\<lparr>colors := [5, 5, 5], tree := Some (Node 0)\<rparr>) 2 4 =
     Inl SliceBoundsOutOfRange"
  by (simp add: two_rows_model_def two_rows_fields lines_two_rows map_index_def
      with_cmds_def with_source_def GetColors_def word_sle_eq
      GenerateSyntaxTree_def language_of_def no_matches_def SetSource_def numeral_eq_Suc)

section \<open>The line index\<close>

lemma scan_loop_append: "scan_loop (xs @ ys) st = scan_loop ys (scan_loop xs st)"
  by (induction xs arbitrary: st) simp_all

lemma indent_of_Nil: "indent_of [] = 0"
  by (simp add: indent_of_def leading_ws_def)

lemma indent_of_Cons:
  "indent_of (b # bs) = (if b = 9 then 4 + indent_of bs else if b = 32 then 1 + indent_of bs else 0)"
  by (simp add: indent_of_def leading_ws_def)

subsection \<open>Inside a row\<close>

text \<open>Past the first byte of a row and before its newline, a byte moves \<^verbatim>\<open>i\<close> and counts
  towards the indentation until a byte that is neither tab nor space was seen.\<close>

lemma scan_byte_in_row:
  assumes "prevLine st = currentLine st" and "b \<noteq> 10"
  shows "scan_byte b st =
     st\<lparr>i := i st + 1,
        foundChar := foundChar st \<or> \<not> (b = 9 \<or> b = 32),
        lineInfo := (lineInfo st)\<lparr>indentation := indentation (lineInfo st) +
          (if foundChar st then 0 else if b = 9 then 4 else if b = 32 then 1 else 0)\<rparr>\<rparr>"
  using assms by (simp add: scan_byte_def scan_reset_def scan_indent_def scan_commit_def)

lemma scan_loop_in_row:
  assumes "prevLine st = currentLine st" and "10 \<notin> set bs"
  shows "scan_loop bs st =
     st\<lparr>i := i st + len bs,
        foundChar := foundChar st \<or> leading_ws bs \<noteq> bs,
        lineInfo := (lineInfo st)\<lparr>indentation := indentation (lineInfo st) +
          (if foundChar st then 0 else indent_of bs)\<rparr>\<rparr>"
  using assms
proof (induction bs arbitrary: st)
  case Nil
  then show ?case by (simp add: len_def indent_of_Nil leading_ws_def)
next
  case (Cons b bs)
  let ?st = "scan_byte b st"
  have b: "b \<noteq> 10" and bs: "10 \<notin> set bs"
    using Cons.prems(2) by auto
  have step: "?st = st\<lparr>i := i st + 1,
        foundChar := foundChar st \<or> \<not> (b = 9 \<or> b = 32),
        lineInfo := (lineInfo st)\<lparr>indentation := indentation (lineInfo st) +
          (if foundChar st then 0 else if b = 9 then 4 else if b = 32 then 1 else 0)\<rparr>\<rparr>"
    using Cons.prems(1) b by (rule scan_byte_in_row)
  have "prevLine ?st = currentLine ?st"
    using Cons.prems(1) by (simp add: step)
  from Cons.IH [OF this bs] show ?case
    by (simp add: step len_def indent_of_Cons leading_ws_def)
qed

subsection \<open>A whole row\<close>

text \<open>The reset of the first byte of a row runs once; the newline commits the row.\<close>

lemma scan_reset_idem: "scan_reset (scan_reset st) = scan_reset st"
  by (simp add: scan_reset_def)

lemma scan_byte_reset: "scan_byte b (scan_reset st) = scan_byte b st"
  by (simp add: scan_byte_def scan_reset_idem)

lemma scan_loop_reset: "bs \<noteq> [] \<Longrightarrow> scan_loop bs (scan_reset st) = scan_loop bs st"
  by (cases bs) (simp_all add: scan_byte_reset)

lemma scan_byte_newline:
  assumes "prevLine st = currentLine st"
  shows "scan_byte 10 st =
     st\<lparr>i := i st + 1, foundChar := True,
        lineInfo := (lineInfo st)\<lparr>endpos := i st\<rparr>,
        linesAcc := fmupd (currentLine st) ((lineInfo st)\<lparr>endpos := i st\<rparr>) (linesAcc st),
        currentLine := currentLine st + 1\<rparr>"
  using assms by (simp add: scan_byte_def scan_reset_def scan_indent_def scan_commit_def)

lemma scan_loop_row:
  assumes "prevLine st \<noteq> currentLine st" and "10 \<notin> set row"
  shows "scan_loop (row @ [10]) st =
     st\<lparr>i := i st + len row + 1,
        prevLine := currentLine st,
        currentLine := currentLine st + 1,
        foundChar := True,
        lineInfo := \<lparr>start = i st, endpos = i st + len row, indentation = indent_of row\<rparr>,
        linesAcc := fmupd (currentLine st)
          \<lparr>start = i st, endpos = i st + len row, indentation = indent_of row\<rparr> (linesAcc st)\<rparr>"
proof -
  define st0 where "st0 = scan_reset st"
  define st1 where "st1 = scan_loop row st0"
  have st0: "st0 = st\<lparr>foundChar := False,
      lineInfo := \<lparr>start = i st, endpos = i st, indentation = 0\<rparr>,
      prevLine := currentLine st\<rparr>"
    using assms(1) by (simp add: st0_def scan_reset_def)
  have in_row: "prevLine st0 = currentLine st0"
    by (simp add: st0)
  have st1: "st1 = st0\<lparr>i := i st0 + len row,
        foundChar := foundChar st0 \<or> leading_ws row \<noteq> row,
        lineInfo := (lineInfo st0)\<lparr>indentation := indentation (lineInfo st0) +
          (if foundChar st0 then 0 else indent_of row)\<rparr>\<rparr>"
    unfolding st1_def using in_row assms(2) by (rule scan_loop_in_row)
  have in_row1: "prevLine st1 = currentLine st1"
    by (simp add: st1 in_row)
  have "scan_loop (row @ [10]) st = scan_loop (row @ [10]) st0"
    by (simp add: st0_def scan_loop_reset)
  also have "\<dots> = scan_byte 10 st1"
    by (simp add: st1_def scan_loop_append)
  also have "\<dots> = st1\<lparr>i := i st1 + 1, foundChar := True,
        lineInfo := (lineInfo st1)\<lparr>endpos := i st1\<rparr>,
        linesAcc := fmupd (currentLine st1) ((lineInfo st1)\<lparr>endpos := i st1\<rparr>) (linesAcc st1),
        currentLine := currentLine st1 + 1\<rparr>"
    using in_row1 by (rule scan_byte_newline)
  also have "\<dots> = st\<lparr>i := i st + len row + 1,
        prevLine := currentLine st,
        currentLine := currentLine st + 1,
        foundChar := True,
        lineInfo := \<lparr>start = i st, endpos = i st + len row, indentation = indent_of row\<rparr>,
        linesAcc := fmupd (currentLine st)
          \<lparr>start = i st, endpos = i st + len row, indentation = indent_of row\<rparr> (linesAcc st)\<rparr>"
    by (simp add: st1 st0)
  finally show ?thesis .
qed

subsection \<open>All rows\<close>

lemma scan_loop_rows:
  assumes "prevLine st \<noteq> currentLine st" and "\<forall>r\<in>set rows. 10 \<notin> set r"
  shows "linesAcc (scan_loop (concat (map (\<lambda>r. r @ [10]) rows)) st) =
           index_rows (i st) (currentLine st) rows (linesAcc st) \<and>
         prevLine (scan_loop (concat (map (\<lambda>r. r @ [10]) rows)) st) \<noteq>
           currentLine (scan_loop (concat (map (\<lambda>r. r @ [10]) rows)) st)"
  using assms
proof (induction rows arbitrary: st)
  case Nil
  then show ?case by simp
next
  case (Cons r rows)
  define st' where "st' = scan_loop (r @ [10]) st"
  have r: "10 \<notin> set r" and rows: "\<forall>r\<in>set rows. 10 \<notin> set r"
    using Cons.prems(2) by auto
  have row: "st' = st\<lparr>i := i st + len r + 1,
        prevLine := currentLine st,
        currentLine := currentLine st + 1,
        foundChar := True,
        lineInfo := \<lparr>start = i st, endpos = i st + len r, indentation = indent_of r\<rparr>,
        linesAcc := fmupd (currentLine st)
          \<lparr>start = i st, endpos = i st + len r, indentation = indent_of r\<rparr> (linesAcc st)\<rparr>"
    unfolding st'_def using Cons.prems(1) r by (rule scan_loop_row)
  have eq: "scan_loop (concat (map (\<lambda>r. r @ [10]) (r # rows))) st =
      scan_loop (concat (map (\<lambda>r. r @ [10]) rows)) st'"
    by (simp add: st'_def scan_loop_append)
  have "prevLine st' \<noteq> currentLine st'"
    by (simp add: row)
  from Cons.IH [OF this rows] show ?case
    unfolding eq by (simp add: row)
qed

lemma scan_byte_keeps_lines: "b \<noteq> 10 \<Longrightarrow> linesAcc (scan_byte b st) = linesAcc st"
  by (simp add: scan_byte_def scan_reset_def scan_indent_def scan_commit_def)

lemma scan_loop_keeps_lines: "10 \<notin> set bs \<Longrightarrow> linesAcc (scan_loop bs st) = linesAcc st"
  by (induction bs arbitrary: st) (simp_all add: scan_byte_keeps_lines)

subsection \<open>Rows and tail of a byte sequence\<close>

lemma rows_of_no_newline: "r \<in> set (rows_of bs) \<Longrightarrow> 10 \<notin> set r"
proof (induction bs arbitrary: r)
  case Nil
  then show ?case by simp
next
  case (Cons b bs)
  show ?case
  proof (cases "b = 10")
    case True
    then show ?thesis using Cons by auto
  next
    case False
    show ?thesis
    proof (cases "rows_of bs")
      case Nil
      then show ?thesis using Cons.prems False by simp
    next
      case (Cons r' rs)
      then have "10 \<notin> set r'" and "\<forall>x\<in>set rs. 10 \<notin> set x"
        using Cons.IH by simp_all
      then show ?thesis
        using Cons.prems False Cons by auto
    qed
  qed
qed

lemma tail_of_no_newline: "10 \<notin> set (tail_of bs)"
  unfolding tail_of_def using set_takeWhileD [of 10 "\<lambda>b. b \<noteq> 10" "rev bs"] by auto

lemma tail_of_Cons: "tail_of (b # bs) = (if 10 \<in> set bs then tail_of bs else if b = 10 then bs else b # bs)"
  by (auto simp: tail_of_def takeWhile_append takeWhile_eq_all_conv)

lemma rows_of_Nil_iff: "rows_of bs = [] \<longleftrightarrow> 10 \<notin> set bs"
  by (induction bs) (auto split: list.splits)

lemma rows_of_decompose: "concat (map (\<lambda>r. r @ [10]) (rows_of bs)) @ tail_of bs = bs"
proof (induction bs)
  case Nil
  then show ?case by (simp add: tail_of_def)
next
  case (Cons b bs)
  show ?case
  proof (cases "b = 10")
    case True
    have "tail_of (b # bs) = tail_of bs"
      using True Cons.IH rows_of_Nil_iff [of bs] by (cases "10 \<in> set bs") (auto simp: tail_of_Cons)
    then show ?thesis using True Cons.IH by simp
  next
    case False
    show ?thesis
    proof (cases "rows_of bs")
      case Nil
      then have "10 \<notin> set bs" by (simp add: rows_of_Nil_iff)
      then show ?thesis using False Nil by (simp add: tail_of_Cons)
    next
      case (Cons r rs)
      then have "10 \<in> set bs" using rows_of_Nil_iff [of bs] by auto
      then show ?thesis using False Cons Cons.IH by (simp add: tail_of_Cons)
    qed
  qed
qed

text \<open>\<open>rows_of\<close> and \<open>tail_of\<close> are the rows and the rest of the bytes: the rows, each with
  its newline, followed by the rest, are the bytes, and no row and no rest holds a newline.\<close>

lemma rows_of_spec:
  "concat (map (\<lambda>r. r @ [10]) (rows_of src)) @ tail_of src = src \<and>
   (\<forall>r\<in>set (rows_of src). 10 \<notin> set r) \<and> 10 \<notin> set (tail_of src)"
  using rows_of_decompose rows_of_no_newline tail_of_no_newline by blast

text \<open>The index \<^verbatim>\<open>SetSource\<close> builds holds the rows and nothing of the rest.\<close>

lemma SetSource_lines: "lines (SetSource s src) = index_rows 0 0 (rows_of src) fmempty"
proof -
  let ?body = "concat (map (\<lambda>r. r @ [10]) (rows_of src))"
  have init: "prevLine scan_init \<noteq> currentLine scan_init"
    by (simp add: scan_init_def)
  have "linesAcc (scan_loop src scan_init) = linesAcc (scan_loop (?body @ tail_of src) scan_init)"
    by (simp add: rows_of_decompose)
  also have "\<dots> = linesAcc (scan_loop ?body scan_init)"
    by (simp add: scan_loop_append scan_loop_keeps_lines tail_of_no_newline)
  also have "\<dots> = index_rows 0 0 (rows_of src) fmempty"
    using scan_loop_rows [OF init, of "rows_of src"] rows_of_no_newline
    by (simp add: scan_init_def)
  finally show ?thesis
    by (simp add: SetSource_def)
qed

subsection \<open>Looking a row up\<close>

lemma index_rows_other:
  assumes "\<forall>j<length rows. q \<noteq> c + word_of_nat j"
  shows "fmlookup (index_rows p c rows m) q = fmlookup m q"
  using assms
proof (induction rows arbitrary: p c m)
  case Nil
  then show ?case by simp
next
  case (Cons r rows)
  have "q \<noteq> c"
    using Cons.prems by fastforce
  moreover have "\<forall>j<length rows. q \<noteq> c + 1 + word_of_nat j"
  proof (intro allI impI)
    fix j assume "j < length rows"
    then have "q \<noteq> c + word_of_nat (Suc j)"
      using Cons.prems by (metis Suc_less_eq length_Cons)
    then show "q \<noteq> c + 1 + word_of_nat j"
      by (simp add: ac_simps)
  qed
  ultimately show ?case
    using Cons.IH by simp
qed

lemma word_of_nat_neq_0:
  assumes "0 < n" and "n < 2 ^ 64"
  shows "(word_of_nat n :: go_int) \<noteq> 0"
  using assms by (auto simp: word_of_nat_eq_0_iff dest: dvd_imp_le)

lemma row_start_0: "row_start rows 0 = 0"
  by (simp add: row_start_def)

lemma row_start_Suc: "row_start (r # rows) (Suc k) = length r + 1 + row_start rows k"
  by (simp add: row_start_def)

lemma index_rows_lookup:
  assumes "k < length rows" and "length rows < 2 ^ 64"
  shows "fmlookup (index_rows p c rows m) (c + word_of_nat k) =
     Some \<lparr>start = p + word_of_nat (row_start rows k),
           endpos = p + word_of_nat (row_start rows k + length (rows ! k)),
           indentation = indent_of (rows ! k)\<rparr>"
  using assms
proof (induction rows arbitrary: p c m k)
  case Nil
  then show ?case by simp
next
  case (Cons r rows)
  show ?case
  proof (cases k)
    case 0
    have "\<forall>j<length rows. c \<noteq> c + 1 + word_of_nat j"
    proof (intro allI impI)
      fix j assume "j < length rows"
      then have "(word_of_nat (Suc j) :: go_int) \<noteq> 0"
        using Cons.prems(2) by (intro word_of_nat_neq_0) simp_all
      then show "c \<noteq> c + 1 + word_of_nat j"
        by (simp add: ac_simps)
    qed
    from index_rows_other [OF this] show ?thesis
      using 0 by (simp add: row_start_0 len_def)
  next
    case (Suc k')
    have "k' < length rows" "length rows < 2 ^ 64"
      using Cons.prems Suc by simp_all
    note IH = Cons.IH [OF this, of "p + len r + 1" "c + 1"]
    have q: "c + word_of_nat k = c + 1 + word_of_nat k'"
      by (simp add: Suc ac_simps)
    have s: "p + word_of_nat (row_start (r # rows) k) =
        p + len r + 1 + word_of_nat (row_start rows k')"
      by (simp add: Suc row_start_Suc len_def ac_simps)
    have e: "p + word_of_nat (row_start (r # rows) k + length (rows ! k')) =
        p + len r + 1 + word_of_nat (row_start rows k' + length (rows ! k'))"
      by (simp add: Suc row_start_Suc len_def ac_simps)
    have n: "(r # rows) ! k = rows ! k'"
      by (simp add: Suc)
    show ?thesis
      unfolding q s n e by (simp only: index_rows.simps IH)
  qed
qed

lemma index_rows_dom:
  assumes "fmlookup (index_rows p c rows fmempty) q = Some li"
  shows "\<exists>k<length rows. q = c + word_of_nat k"
proof (rule ccontr)
  assume "\<not> (\<exists>k<length rows. q = c + word_of_nat k)"
  then have "\<forall>j<length rows. q \<noteq> c + word_of_nat j" by blast
  from index_rows_other [OF this, of p fmempty] assms show False by simp
qed

subsection \<open>Sizes\<close>

lemma rows_count_le: "length rows \<le> length (concat (map (\<lambda>r. r @ [10 :: byte]) rows))"
  by (induction rows) simp_all

lemma row_end_le:
  "k < length rows \<Longrightarrow>
   row_start rows k + length (rows ! k) < length (concat (map (\<lambda>r. r @ [10 :: byte]) rows))"
proof (induction rows arbitrary: k)
  case Nil
  then show ?case by simp
next
  case (Cons r rows)
  show ?case
  proof (cases k)
    case 0
    then show ?thesis by (simp add: row_start_0)
  next
    case (Suc k')
    then have "k' < length rows" using Cons.prems by simp
    from Cons.IH [OF this] show ?thesis
      using Suc by (simp add: row_start_Suc)
  qed
qed

lemma rows_of_length: "length (concat (map (\<lambda>r. r @ [10]) (rows_of src))) \<le> length src"
proof -
  have "length (concat (map (\<lambda>r. r @ [10]) (rows_of src)) @ tail_of src) = length src"
    by (simp only: rows_of_decompose)
  then show ?thesis by simp
qed

lemma count_two_le: "a \<noteq> b \<Longrightarrow> count_list xs a + count_list xs b \<le> length xs"
  by (induction xs) auto

lemma leading_ws_le: "length (leading_ws row) \<le> length row"
  by (simp add: leading_ws_def length_takeWhile_le)

lemma sint_indent_of:
  assumes "length row < 2 ^ 61"
  shows "sint (indent_of row) =
     4 * int (count_list (leading_ws row) 9) + int (count_list (leading_ws row) 32)"
proof -
  let ?t = "count_list (leading_ws row) 9" and ?s = "count_list (leading_ws row) 32"
  have "?t + ?s \<le> length row"
    using count_two_le [of 9 32 "leading_ws row"] leading_ws_le [of row] by simp
  then have "4 * ?t + ?s < 2 ^ 63"
    using assms by simp
  then have "sint (word_of_nat (4 * ?t + ?s) :: go_int) = int (4 * ?t + ?s)"
    by (rule sint_word_of_nat)
  then show ?thesis
    by (simp add: indent_of_def)
qed

text \<open>
  Claim C7. The line index of a byte sequence (shorter than \<open>2 ^ 61\<close> bytes, so that no
  count wraps around) holds exactly the rows that a newline ends, under their numbers;
  row \<open>k\<close> starts at the offset of its first byte, ends at the offset of its newline, and
  its indentation is 4 times the tabs plus the spaces of the run of tabs and spaces it
  begins with, the count stopping at the first other byte.
\<close>

theorem indentation_counts_leading_whitespace:
  assumes "length src < 2 ^ 61"
  shows "(\<forall>q li. fmlookup (lines (SetSource s src)) q = Some li \<longrightarrow>
            (\<exists>k<length (rows_of src). q = word_of_nat k)) \<and>
         (\<forall>k<length (rows_of src). \<exists>li.
            fmlookup (lines (SetSource s src)) (word_of_nat k) = Some li \<and>
            sint (start li) = int (row_start (rows_of src) k) \<and>
            sint (endpos li) = int (row_start (rows_of src) k + length (rows_of src ! k)) \<and>
            sint (indentation li) =
              4 * int (count_list (leading_ws (rows_of src ! k)) 9) +
              int (count_list (leading_ws (rows_of src ! k)) 32))"
proof (intro conjI allI impI)
  fix q li assume "fmlookup (lines (SetSource s src)) q = Some li"
  then show "\<exists>k<length (rows_of src). q = word_of_nat k"
    using index_rows_dom [of 0 0 "rows_of src" q li] by (simp add: SetSource_lines)
next
  fix k assume k: "k < length (rows_of src)"
  let ?rows = "rows_of src"
  let ?li = "\<lparr>start = word_of_nat (row_start ?rows k),
           endpos = word_of_nat (row_start ?rows k + length (?rows ! k)),
           indentation = indent_of (?rows ! k)\<rparr>"
  have total: "length (concat (map (\<lambda>r. r @ [10]) ?rows)) < 2 ^ 61"
    using rows_of_length [of src] assms by simp
  have n: "length ?rows < 2 ^ 64"
    using rows_count_le [of ?rows] total by simp
  have e: "row_start ?rows k + length (?rows ! k) < 2 ^ 61"
    using row_end_le [OF k] total by simp
  have look: "fmlookup (lines (SetSource s src)) (word_of_nat k) = Some ?li"
    using index_rows_lookup [OF k n, of 0 0 fmempty] by (simp add: SetSource_lines)
  have "sint (start ?li) = int (row_start ?rows k)"
    using e by (simp add: sint_word_of_nat)
  moreover have "sint (endpos ?li) = int (row_start ?rows k + length (?rows ! k))"
    using e by (simp add: sint_word_of_nat del: of_nat_add)
  moreover have "sint (indentation ?li) =
      4 * int (count_list (leading_ws (?rows ! k)) 9) + int (count_list (leading_ws (?rows ! k)) 32)"
    using e by (simp add: sint_indent_of)
  ultimately show "\<exists>li. fmlookup (lines (SetSource s src)) (word_of_nat k) = Some li \<and>
            sint (start li) = int (row_start ?rows k) \<and>
            sint (endpos li) = int (row_start ?rows k + length (?rows ! k)) \<and>
            sint (indentation li) =
              4 * int (count_list (leading_ws (?rows ! k)) 9) +
              int (count_list (leading_ws (?rows ! k)) 32)"
    using look by blast
qed

text \<open>\<^verbatim>\<open>"  x\n"\<close>: row 0 has indentation 2, starts at 0 and ends at 3.\<close>

theorem indentation_counts_leading_whitespace_witness:
  "length [32, 32, 120, 10 :: byte] < 2 ^ 61 \<and>
   rows_of [32, 32, 120, 10] = [[32, 32, 120]] \<and>
   fmlookup (lines (SetSource emptySourceCode [32, 32, 120, 10])) 0 =
     Some \<lparr>start = 0, endpos = 3, indentation = 2\<rparr> \<and>
   4 * int (count_list (leading_ws [32, 32, 120]) 9) + int (count_list (leading_ws [32, 32, 120]) 32) = 2"
proof -
  have b: "length [32, 32, 120, 10 :: byte] < 2 ^ 61" by simp
  note indentation_counts_leading_whitespace [OF b, of emptySourceCode]
  then show ?thesis
    by (simp add: emptySourceCode_def scan_defs leading_ws_def)
qed

subsection \<open>What the rows cover\<close>

text \<open>Row 0 starts at byte 0, every row at the byte after the newline of the row before
  it, and the newline of the last row is the last newline of the bytes: the rows cover the
  bytes up to it, and the bytes of \<open>tail_of\<close>, which no newline ends, belong to no row.\<close>

lemma row_start_step:
  "k < length rows \<Longrightarrow> row_start rows (Suc k) = row_start rows k + length (rows ! k) + 1"
  by (simp add: row_start_def take_Suc_conv_app_nth)

lemma row_start_total:
  "row_start (rows_of src) (length (rows_of src)) + length (tail_of src) = length src"
proof -
  have "length (concat (map (\<lambda>r. r @ [10]) (rows_of src)) @ tail_of src) = length src"
    by (simp only: rows_of_decompose)
  then show ?thesis by (simp add: row_start_def)
qed

lemma rows_of_append_tail: "10 \<notin> set t \<Longrightarrow> rows_of (src @ t) = rows_of src"
  by (induction src) (simp_all add: rows_of_Nil_iff)

lemma SetSource_ignores_tail:
  "10 \<notin> set t \<Longrightarrow> lines (SetSource s (src @ t)) = lines (SetSource s src)"
  by (simp add: SetSource_lines rows_of_append_tail)

text \<open>
  Claim C2 holds of the source only for bytes that are empty or end with a newline. A
  final line without a newline is not committed: the loop commits a row at its newline
  and nothing follows the loop. The bytes \<^verbatim>\<open>"ab"\<close> leave the index empty, though they
  are two bytes to cover, and \<^verbatim>\<open>"a\nb"\<close> leaves row 0 alone, which ends at byte 1.
\<close>

theorem final_line_without_newline_not_indexed:
  "lines (SetSource emptySourceCode [97, 98]) = fmempty \<and>
   lines (SetSource emptySourceCode [97, 10, 98]) =
     fmupd 0 \<lparr>start = 0, endpos = 1, indentation = 0\<rparr> fmempty \<and>
   lines (SetSource emptySourceCode []) = fmempty"
  by (simp add: emptySourceCode_def scan_defs)

end
